theory Spec2Isabelle
  imports Main "HOL-Library.Sublist"
begin

section \<open>Python values used by \<open>humumls/tablecreator.py\<close>\<close>

text \<open>
  A Python \<open>str\<close> is a sequence of Unicode code points; a \<open>bytes\<close> object is a sequence
  of numbers below 256. Both are lists of naturals here. \<open>u\<close> turns an ASCII literal of
  the source into its code points.
\<close>

type_synonym ustr = "nat list"

type_synonym bytes = "nat list"

definition u :: "string \<Rightarrow> ustr" where
  "u s = map of_char s"

datatype error =
    KeyError
  | IndexError
  | UnboundLocalError
  | UnicodeDecodeError
  | UnicodeEncodeError

text \<open>Sequencing of fallible steps: the first raised exception aborts what follows.\<close>

definition ebind :: "error + 'a \<Rightarrow> ('a \<Rightarrow> error + 'b) \<Rightarrow> error + 'b" where
  "ebind m f = (case m of Inl e \<Rightarrow> Inl e | Inr x \<Rightarrow> f x)"

text \<open>\<open>xs[i]\<close> for a non-negative literal index: IndexError out of range.\<close>

definition py_index :: "'a list \<Rightarrow> nat \<Rightarrow> error + 'a" where
  "py_index xs i = (if i < length xs then Inr (xs ! i) else Inl IndexError)"

text \<open>
  A \<open>for record in ...\<close> loop whose body may raise: the rows are consumed in order, the
  state is threaded through, the first exception ends the loop.
\<close>

fun efold :: "('s \<Rightarrow> 'a \<Rightarrow> error + 's) \<Rightarrow> 'a list \<Rightarrow> 's \<Rightarrow> error + 's" where
  "efold f [] s = Inr s"
| "efold f (x # xs) s = (case f s x of Inl e \<Rightarrow> Inl e | Inr s' \<Rightarrow> efold f xs s')"

subsection \<open>Whitespace, \<open>strip\<close>, \<open>split\<close>, \<open>join\<close>\<close>

text \<open>
  The code points for which \<open>str.isspace\<close> holds; \<open>str.strip()\<close> and \<open>str.split()\<close>
  without arguments use this set.
\<close>

definition isspace :: "nat \<Rightarrow> bool" where
  "isspace c = ((9 \<le> c \<and> c \<le> 13) \<or> (28 \<le> c \<and> c \<le> 32) \<or> c = 133 \<or> c = 160
     \<or> c = 5760 \<or> (8192 \<le> c \<and> c \<le> 8202) \<or> c = 8232 \<or> c = 8233 \<or> c = 8239
     \<or> c = 8287 \<or> c = 12288)"

definition strip :: "ustr \<Rightarrow> ustr" where
  "strip s = rev (dropWhile isspace (rev (dropWhile isspace s)))"

text \<open>\<open>s.split(sep)\<close> for a one-character separator: always at least one field.\<close>

fun split_on :: "nat \<Rightarrow> ustr \<Rightarrow> ustr list" where
  "split_on sep [] = [[]]"
| "split_on sep (c # cs) =
     (if c = sep then [] # split_on sep cs
      else (case split_on sep cs of [] \<Rightarrow> [[c]] | w # ws \<Rightarrow> (c # w) # ws))"

text \<open>\<open>s.split()\<close>: maximal runs of non-whitespace; \<open>w\<close> is the run being read.\<close>

fun split_ws_acc :: "ustr \<Rightarrow> ustr \<Rightarrow> ustr list" where
  "split_ws_acc w [] = (if w = [] then [] else [w])"
| "split_ws_acc w (c # cs) =
     (if isspace c then (if w = [] then split_ws_acc [] cs else w # split_ws_acc [] cs)
      else split_ws_acc (w @ [c]) cs)"

definition split_ws :: "ustr \<Rightarrow> ustr list" where
  "split_ws s = split_ws_acc [] s"

fun join :: "ustr \<Rightarrow> ustr list \<Rightarrow> ustr" where
  "join sep [] = []"
| "join sep [w] = w"
| "join sep (w # ws) = w @ sep @ join sep ws"

text \<open>\<open>record.strip().split("|")\<close>, the first statement of every loop body.\<close>

definition split_record :: "ustr \<Rightarrow> ustr list" where
  "split_record record = split_on 124 (strip record)"

subsection \<open>The counting scan before every pass\<close>

text \<open>
  \<^verbatim>\<open>for idx, _ in enumerate(open(path)): pass\<close> followed by \<^verbatim>\<open>num_lines = idx\<close>.
  \<open>idx\<close> is a local that is unbound until the loop body has run once.
\<close>

fun enumerate_idx :: "nat \<Rightarrow> nat option \<Rightarrow> 'a list \<Rightarrow> nat option" where
  "enumerate_idx i idx [] = idx"
| "enumerate_idx i idx (l # ls) = enumerate_idx (Suc i) (Some i) ls"

definition num_lines :: "'a list \<Rightarrow> error + nat" where
  "num_lines file = (case enumerate_idx 0 None file of
                       None \<Rightarrow> Inl UnboundLocalError
                     | Some idx \<Rightarrow> Inr idx)"

subsection \<open>The fixed tables\<close>

definition LANGDICT :: "ustr \<rightharpoonup> ustr" where
  "LANGDICT = map_of
     [(u ''ENG'', u ''en''), (u ''BAQ'', u ''eu''), (u ''CHI'', u ''zh''),
      (u ''CZE'', u ''cz''), (u ''DAN'', u ''dk''), (u ''DUT'', u ''nl''),
      (u ''EST'', u ''et''), (u ''FIN'', u ''fi''), (u ''FRE'', u ''fr''),
      (u ''GER'', u ''de''), (u ''GRE'', u ''gr''), (u ''HEB'', u ''he''),
      (u ''HUN'', u ''hu''), (u ''ITA'', u ''it''), (u ''JPN'', u ''jp''),
      (u ''KOR'', u ''ko''), (u ''LAV'', u ''lv''), (u ''NOR'', u ''no''),
      (u ''POL'', u ''pl''), (u ''POR'', u ''po''), (u ''RUS'', u ''ru''),
      (u ''SPA'', u ''sp''), (u ''SWE'', u ''sw''), (u ''TUR'', u ''tr'')]"

definition RELATIONMAPPING :: "ustr \<rightharpoonup> ustr" where
  "RELATIONMAPPING = map_of
     [(u ''PAR'', u ''parent''), (u ''CHD'', u ''child''), (u ''RB'', u ''broader''),
      (u ''RN'', u ''narrower''), (u ''SY'', u ''synonym''), (u ''RO'', u ''other''),
      (u ''RL'', u ''similar''), (u ''RQ'', u ''related''), (u ''SIB'', u ''sibling''),
      (u ''AQ'', u ''qualifier''), (u ''QB'', u ''qualifies''), (u ''RU'', u ''unspecified''),
      (u ''XR'', u ''notrelated'')]"

section \<open>The aggregates\<close>

text \<open>
  Every aggregate is a \<open>defaultdict(list)\<close> whose keys are fixed literals of the source;
  a key that has not been written is absent (\<open>None\<close>). \<open>c_id\<close> is the key \<open>"_id"\<close>,
  \<open>c_preferred\<close> is \<open>"preferred"\<close>, \<open>c_lui\<close> is \<open>"lui"\<close>, \<open>c_sui\<close> is \<open>"sui"\<close>,
  \<open>c_definition\<close> is \<open>"definition"\<close>, \<open>c_rel\<close> is \<open>"rel"\<close> (itself a
  \<open>defaultdict(list)\<close> from relation name to CUIs) and \<open>c_semtype\<close> is \<open>"semtype"\<close>.
\<close>

record concept =
  c_id :: "ustr option"
  c_preferred :: "ustr option"
  c_lui :: "ustr list option"
  c_sui :: "ustr list option"
  c_definition :: "ustr list option"
  c_rel :: "(ustr \<rightharpoonup> ustr list) option"
  c_semtype :: "ustr list option"

record term_rec =
  t_id :: "ustr option"
  t_cui :: "ustr list option"
  t_sui :: "ustr list option"

record string_rec =
  s_id :: "ustr option"
  s_string :: "ustr option"
  s_lower :: "ustr option"
  s_lang :: "ustr option"
  s_numwords :: "nat option"
  s_numwordslower :: "nat option"
  s_lui :: "ustr option"
  s_cui :: "ustr list option"

type_synonym concepts = "ustr \<rightharpoonup> concept"

type_synonym terms = "ustr \<rightharpoonup> term_rec"

type_synonym strings = "ustr \<rightharpoonup> string_rec"

text \<open>The value a \<open>defaultdict(defaultdict_list)\<close> makes on the first access of a key.\<close>

definition new_concept :: concept where
  "new_concept = \<lparr>c_id = None, c_preferred = None, c_lui = None, c_sui = None,
                  c_definition = None, c_rel = None, c_semtype = None\<rparr>"

definition new_term :: term_rec where
  "new_term = \<lparr>t_id = None, t_cui = None, t_sui = None\<rparr>"

definition new_string :: string_rec where
  "new_string = \<lparr>s_id = None, s_string = None, s_lower = None, s_lang = None,
                 s_numwords = None, s_numwordslower = None, s_lui = None, s_cui = None\<rparr>"

definition get_concept :: "concepts \<Rightarrow> ustr \<Rightarrow> concept" where
  "get_concept concepts cui = (case concepts cui of None \<Rightarrow> new_concept | Some c \<Rightarrow> c)"

definition get_term :: "terms \<Rightarrow> ustr \<Rightarrow> term_rec" where
  "get_term terms lui = (case terms lui of None \<Rightarrow> new_term | Some t \<Rightarrow> t)"

definition get_string :: "strings \<Rightarrow> ustr \<Rightarrow> string_rec" where
  "get_string strings sui = (case strings sui of None \<Rightarrow> new_string | Some s \<Rightarrow> s)"

text \<open>\<open>d[key].append(x)\<close> on a \<open>defaultdict(list)\<close>: a missing key starts from \<open>[]\<close>.\<close>

definition append_to :: "'a list option \<Rightarrow> 'a \<Rightarrow> 'a list option" where
  "append_to l x = Some ((case l of None \<Rightarrow> [] | Some xs \<Rightarrow> xs) @ [x])"

text \<open>
  The truth value of \<^verbatim>\<open>languages and split[1] not in languages\<close>: \<open>split[1]\<close> is only
  read when \<open>languages\<close> is non-empty.
\<close>

definition rejected :: "ustr list \<Rightarrow> ustr list \<Rightarrow> error + bool" where
  "rejected languages split =
     (if languages = [] then Inr False
      else ebind (py_index split 1) (\<lambda>lang. Inr (lang \<notin> set languages)))"

section \<open>The four source files\<close>

text \<open>The META directory \<open>path\<close>: each file is the list of its lines.\<close>

record meta_dir =
  MRCONSO :: "ustr list"
  MRDEF :: "ustr list"
  MRREL :: "ustr list"
  MRSTY :: "ustr list"

section \<open>\<open>process_mrrel\<close>\<close>

text \<open>
  One iteration of the loop, after the split. \<open>concepts[source]["rel"]\<close> is \<open>[]\<close> on the
  first visit, indexing it by a string raises TypeError, and the handler installs the
  \<open>defaultdict(list)\<close>; afterwards the list of the relation name is extended.
\<close>

definition mrrel_row :: "concepts \<Rightarrow> ustr list \<Rightarrow> error + concepts" where
  "mrrel_row concepts split =
     ebind (py_index split 4) (\<lambda>source.
     ebind (py_index split 0) (\<lambda>dest.
     ebind (py_index split 3) (\<lambda>code.
     ebind (case RELATIONMAPPING code of None \<Rightarrow> Inl KeyError | Some r \<Rightarrow> Inr r) (\<lambda>rel.
       let c = get_concept concepts source;
           m = (case c_rel c of None \<Rightarrow> Map.empty | Some m \<Rightarrow> m)
       in Inr (concepts(source \<mapsto> c\<lparr>c_rel := Some (m(rel := append_to (m rel) dest))\<rparr>))))))"

definition process_mrrel :: "meta_dir \<Rightarrow> concepts \<Rightarrow> error + concepts" where
  "process_mrrel path concepts =
     ebind (num_lines (MRREL path)) (\<lambda>n.
       efold (\<lambda>cs record. mrrel_row cs (split_record record)) (MRREL path) concepts)"

section \<open>\<open>process_mrdef\<close>\<close>

text \<open>\<^verbatim>\<open>{LANGDICT[l] for l in languages}\<close>: KeyError on a code outside the table.\<close>

fun isolanguages :: "ustr list \<Rightarrow> error + ustr list" where
  "isolanguages [] = Inr []"
| "isolanguages (l # ls) =
     ebind (case LANGDICT l of None \<Rightarrow> Inl KeyError | Some i \<Rightarrow> Inr i) (\<lambda>i.
     ebind (isolanguages ls) (\<lambda>is. Inr (i # is)))"

text \<open>
  \<open>classify\<close> is the first component of \<open>langid.classify\<close>; \<open>preprocessor\<close> is the
  caller's function, or \<open>None\<close>.
\<close>

definition mrdef_row ::
  "(ustr \<Rightarrow> ustr) \<Rightarrow> ustr list \<Rightarrow> (ustr \<Rightarrow> ustr) option \<Rightarrow> concepts \<Rightarrow> ustr list
     \<Rightarrow> error + concepts" where
  "mrdef_row classify isolangs preprocessor concepts split =
     ebind (py_index split 0) (\<lambda>pk.
     ebind (py_index split 5) (\<lambda>definition0.
       if classify definition0 \<notin> set isolangs then Inr concepts
       else
         let definition1 = (case preprocessor of None \<Rightarrow> definition0
                            | Some p \<Rightarrow> p definition0);
             c = get_concept concepts pk
         in Inr (concepts(pk \<mapsto> c\<lparr>c_definition := append_to (c_definition c) definition1\<rparr>))))"

text \<open>
  The closing loop: every concept that has the key \<open>"definition"\<close> gets
  \<open>list(concepts[k]["definition"])\<close> written back.
\<close>

definition relist_definitions :: "concepts \<Rightarrow> concepts" where
  "relist_definitions concepts =
     (\<lambda>k. case concepts k of
             None \<Rightarrow> None
           | Some v \<Rightarrow> (case c_definition v of
                          None \<Rightarrow> Some v
                        | Some ds \<Rightarrow> Some (v\<lparr>c_definition := Some ds\<rparr>)))"

definition process_mrdef ::
  "(ustr \<Rightarrow> ustr) \<Rightarrow> meta_dir \<Rightarrow> concepts \<Rightarrow> ustr list \<Rightarrow> (ustr \<Rightarrow> ustr) option
     \<Rightarrow> error + concepts" where
  "process_mrdef classify path concepts languages preprocessor =
     ebind (isolanguages languages) (\<lambda>isolangs.
     ebind (num_lines (MRDEF path)) (\<lambda>n.
     ebind (efold (\<lambda>cs record. mrdef_row classify isolangs preprocessor cs (split_record record))
              (MRDEF path) concepts) (\<lambda>concepts'.
       Inr (relist_definitions concepts'))))"

section \<open>\<open>process_mrsty\<close>\<close>

definition mrsty_row :: "concepts \<Rightarrow> ustr list \<Rightarrow> error + concepts" where
  "mrsty_row concepts split =
     ebind (py_index split 0) (\<lambda>cui.
     ebind (py_index split 2) (\<lambda>semantic_type.
       let c = get_concept concepts cui
       in Inr (concepts(cui \<mapsto> c\<lparr>c_semtype := append_to (c_semtype c) semantic_type\<rparr>))))"

definition process_mrsty :: "meta_dir \<Rightarrow> concepts \<Rightarrow> error + concepts" where
  "process_mrsty path concepts =
     ebind (num_lines (MRSTY path)) (\<lambda>n.
       efold (\<lambda>cs record. mrsty_row cs (split_record record)) (MRSTY path) concepts)"

section \<open>\<open>_create_concepts\<close>\<close>

definition concepts_row :: "ustr list \<Rightarrow> concepts \<Rightarrow> ustr list \<Rightarrow> error + concepts" where
  "concepts_row languages concepts split =
     ebind (rejected languages split) (\<lambda>skip.
       if skip then Inr concepts
       else
         ebind (py_index split 0) (\<lambda>cui.
         ebind (py_index split 5) (\<lambda>sui.
         ebind (py_index split 3) (\<lambda>lui.
         ebind (py_index split 2) (\<lambda>status.
           let c0 = (get_concept concepts cui)\<lparr>c_id := Some cui\<rparr>;
               c1 = (if status = u ''P'' then c0\<lparr>c_preferred := Some lui\<rparr> else c0);
               c2 = c1\<lparr>c_lui := append_to (c_lui c1) lui\<rparr>;
               c3 = c2\<lparr>c_sui := append_to (c_sui c2) sui\<rparr>
           in Inr (concepts(cui \<mapsto> c3)))))))"

definition create_concepts ::
  "(ustr \<Rightarrow> ustr) \<Rightarrow> meta_dir \<Rightarrow> bool \<Rightarrow> bool \<Rightarrow> bool \<Rightarrow> ustr list \<Rightarrow> (ustr \<Rightarrow> ustr) option
     \<Rightarrow> error + concepts" where
  "create_concepts classify path process_definitions process_relations
       process_semantic_types languages preprocessor =
     ebind (num_lines (MRCONSO path)) (\<lambda>n.
     ebind (efold (\<lambda>cs record. concepts_row languages cs (split_record record))
              (MRCONSO path) Map.empty) (\<lambda>concepts0.
     ebind (if process_definitions
            then process_mrdef classify path concepts0 languages preprocessor
            else Inr concepts0) (\<lambda>concepts1.
     ebind (if process_relations then process_mrrel path concepts1
            else Inr concepts1) (\<lambda>concepts2.
     ebind (if process_semantic_types then process_mrsty path concepts2
            else Inr concepts2) (\<lambda>concepts3.
       Inr concepts3)))))"

section \<open>\<open>_create_terms\<close>\<close>

definition terms_row :: "ustr list \<Rightarrow> terms \<Rightarrow> ustr list \<Rightarrow> error + terms" where
  "terms_row languages terms split =
     ebind (rejected languages split) (\<lambda>skip.
       if skip then Inr terms
       else
         ebind (py_index split 0) (\<lambda>cui.
         ebind (py_index split 5) (\<lambda>sui.
         ebind (py_index split 3) (\<lambda>lui.
           let t0 = (get_term terms lui)\<lparr>t_id := Some lui\<rparr>;
               t1 = t0\<lparr>t_cui := append_to (t_cui t0) cui\<rparr>;
               t2 = t1\<lparr>t_sui := append_to (t_sui t1) sui\<rparr>
           in Inr (terms(lui \<mapsto> t2))))))"

definition create_terms :: "meta_dir \<Rightarrow> ustr list \<Rightarrow> error + terms" where
  "create_terms path languages =
     ebind (num_lines (MRCONSO path)) (\<lambda>n.
       efold (\<lambda>ts record. terms_row languages ts (split_record record))
         (MRCONSO path) Map.empty)"

section \<open>\<open>_create_strings\<close>\<close>

subsection \<open>\<open>str.encode("utf-8")\<close> and \<open>bytes.decode("utf-8")\<close>\<close>

text \<open>
  The strict codec: surrogates are not encodable; the decoder rejects a stray or missing
  continuation byte, an overlong form, a surrogate and a value above \<open>0x10FFFF\<close>.
\<close>

definition utf8_encode_char :: "nat \<Rightarrow> error + bytes" where
  "utf8_encode_char c =
     (if c < 0x80 then Inr [c]
      else if c < 0x800 then Inr [0xC0 + c div 64, 0x80 + c mod 64]
      else if c < 0x10000 then
        (if 0xD800 \<le> c \<and> c < 0xE000 then Inl UnicodeEncodeError
         else Inr [0xE0 + c div 4096, 0x80 + c div 64 mod 64, 0x80 + c mod 64])
      else if c < 0x110000 then
        Inr [0xF0 + c div 262144, 0x80 + c div 4096 mod 64, 0x80 + c div 64 mod 64,
             0x80 + c mod 64]
      else Inl UnicodeEncodeError)"

fun utf8_encode :: "ustr \<Rightarrow> error + bytes" where
  "utf8_encode [] = Inr []"
| "utf8_encode (c # cs) =
     ebind (utf8_encode_char c) (\<lambda>b. ebind (utf8_encode cs) (\<lambda>bs. Inr (b @ bs)))"

definition is_cont :: "nat \<Rightarrow> bool" where
  "is_cont b = (0x80 \<le> b \<and> b < 0xC0)"

fun utf8_decode :: "bytes \<Rightarrow> error + ustr" where
  "utf8_decode [] = Inr []"
| "utf8_decode (b0 # bs) =
     (if b0 < 0x80 then ebind (utf8_decode bs) (\<lambda>cs. Inr (b0 # cs))
      else if 0xC2 \<le> b0 \<and> b0 < 0xE0 then
        (case bs of
           b1 # r \<Rightarrow>
             if is_cont b1
             then ebind (utf8_decode r) (\<lambda>cs. Inr (((b0 - 0xC0) * 64 + (b1 - 0x80)) # cs))
             else Inl UnicodeDecodeError
         | _ \<Rightarrow> Inl UnicodeDecodeError)
      else if 0xE0 \<le> b0 \<and> b0 < 0xF0 then
        (case bs of
           b1 # b2 # r \<Rightarrow>
             (let c = (b0 - 0xE0) * 4096 + (b1 - 0x80) * 64 + (b2 - 0x80)
              in if is_cont b1 \<and> is_cont b2 \<and> 0x800 \<le> c \<and> \<not> (0xD800 \<le> c \<and> c < 0xE000)
                 then ebind (utf8_decode r) (\<lambda>cs. Inr (c # cs))
                 else Inl UnicodeDecodeError)
         | _ \<Rightarrow> Inl UnicodeDecodeError)
      else if 0xF0 \<le> b0 \<and> b0 < 0xF5 then
        (case bs of
           b1 # b2 # b3 # r \<Rightarrow>
             (let c = (b0 - 0xF0) * 262144 + (b1 - 0x80) * 4096 + (b2 - 0x80) * 64
                        + (b3 - 0x80)
              in if is_cont b1 \<and> is_cont b2 \<and> is_cont b3 \<and> 0x10000 \<le> c \<and> c < 0x110000
                 then ebind (utf8_decode r) (\<lambda>cs. Inr (c # cs))
                 else Inl UnicodeDecodeError)
         | _ \<Rightarrow> Inl UnicodeDecodeError)
      else Inl UnicodeDecodeError)"

text \<open>
  The BSON length check:
  \<^verbatim>\<open>byte_string = string.encode("utf-8")\<close>,
  \<^verbatim>\<open>if len(byte_string) >= 1000: string = byte_string[:1000].decode('utf-8')\<close>.
\<close>

definition length_guard :: "ustr \<Rightarrow> error + ustr" where
  "length_guard string =
     ebind (utf8_encode string) (\<lambda>byte_string.
       if length byte_string \<ge> 1000 then utf8_decode (take 1000 byte_string)
       else Inr string)"

subsection \<open>The lexical representation\<close>

text \<open>
  \<open>isword\<close> is the character class \<open>\w\<close> of \<open>re\<close> and \<open>lower\<close> is \<open>str.lower\<close>; both are
  given by the Unicode tables of the interpreter and are parameters here.
  \<open>PUNCT.sub(" ", string)\<close> replaces every character outside \<open>\w\<close> by a space.
\<close>

definition sub_punct :: "(nat \<Rightarrow> bool) \<Rightarrow> ustr \<Rightarrow> ustr" where
  "sub_punct isword string = map (\<lambda>c. if isword c then c else 32) string"

definition lowerwords_of :: "(nat \<Rightarrow> bool) \<Rightarrow> (ustr \<Rightarrow> ustr) \<Rightarrow> ustr \<Rightarrow> ustr" where
  "lowerwords_of isword lower string =
     join (u '' '') (split_ws (lower (sub_punct isword string)))"

definition strings_row ::
  "(nat \<Rightarrow> bool) \<Rightarrow> (ustr \<Rightarrow> ustr) \<Rightarrow> ustr list \<Rightarrow> strings \<Rightarrow> ustr list
     \<Rightarrow> error + strings" where
  "strings_row isword lower languages strings split =
     ebind (py_index split 14) (\<lambda>string0.
     ebind (length_guard string0) (\<lambda>string.
     ebind (rejected languages split) (\<lambda>skip.
       if skip then Inr strings
       else
         ebind (py_index split 0) (\<lambda>cui.
         ebind (py_index split 5) (\<lambda>sui.
         ebind (py_index split 3) (\<lambda>lui.
         ebind (py_index split 1) (\<lambda>lang.
           let lowerwords = lowerwords_of isword lower string;
               s0 = (get_string strings sui)
                      \<lparr>s_id := Some sui, s_string := Some string, s_lower := Some lowerwords,
                       s_lang := Some lang, s_numwords := Some (length (split_ws string)),
                       s_numwordslower := Some (length (split_ws lowerwords)),
                       s_lui := Some lui\<rparr>;
               s1 = s0\<lparr>s_cui := append_to (s_cui s0) cui\<rparr>
           in Inr (strings(sui \<mapsto> s1))))))))) "

definition create_strings ::
  "(nat \<Rightarrow> bool) \<Rightarrow> (ustr \<Rightarrow> ustr) \<Rightarrow> meta_dir \<Rightarrow> ustr list \<Rightarrow> error + strings" where
  "create_strings isword lower path languages =
     ebind (num_lines (MRCONSO path)) (\<lambda>n.
       efold (\<lambda>ss record. strings_row isword lower languages ss (split_record record))
         (MRCONSO path) Map.empty)"

section \<open>\<open>createdb\<close>\<close>

text \<open>
  The database client is outside the model. \<open>set(languages)\<close> removes duplicates; the
  language codes are checked against \<open>LANGDICT\<close> before any file is read.
\<close>

definition createdb ::
  "(nat \<Rightarrow> bool) \<Rightarrow> (ustr \<Rightarrow> ustr) \<Rightarrow> (ustr \<Rightarrow> ustr) \<Rightarrow> meta_dir \<Rightarrow> ustr list
     \<Rightarrow> bool \<Rightarrow> bool \<Rightarrow> bool \<Rightarrow> (ustr \<Rightarrow> ustr) option
     \<Rightarrow> error + (concepts \<times> strings \<times> terms)" where
  "createdb isword lower classify pathtometadir languages0 process_definitions
       process_relations process_semantic_types preprocessor =
     (let languages = remdups languages0 in
      ebind (isolanguages languages) (\<lambda>_.
      ebind (create_terms pathtometadir languages) (\<lambda>terms.
      ebind (create_strings isword lower pathtometadir languages) (\<lambda>strings.
      ebind (create_concepts classify pathtometadir process_definitions process_relations
               process_semantic_types languages preprocessor) (\<lambda>concepts.
        Inr (concepts, strings, terms))))))"

text \<open>
  The ASCII rows of the interpreter's tables, for evaluating ASCII inputs: \<open>\w\<close> on ASCII
  is letters, digits and the underscore; \<open>str.lower\<close> on ASCII maps \<open>A\<close>..\<open>Z\<close> to
  \<open>a\<close>..\<open>z\<close>.
\<close>

definition ascii_isword :: "nat \<Rightarrow> bool" where
  "ascii_isword c = ((48 \<le> c \<and> c \<le> 57) \<or> (65 \<le> c \<and> c \<le> 90) \<or> c = 95 \<or> (97 \<le> c \<and> c \<le> 122))"

definition ascii_lower :: "ustr \<Rightarrow> ustr" where
  "ascii_lower s = map (\<lambda>c. if 65 \<le> c \<and> c \<le> 90 then c + 32 else c) s"

section \<open>Observations used in the statements\<close>

text \<open>
  \<open>concepts[cui]["rel"][name]\<close> read without inserting anything: the empty list when the
  concept, its \<open>"rel"\<close> key or the relation name is absent.
\<close>

definition rel_list :: "concepts \<Rightarrow> ustr \<Rightarrow> ustr \<Rightarrow> ustr list" where
  "rel_list concepts cui name =
     (case concepts cui of
        None \<Rightarrow> []
      | Some c \<Rightarrow> (case c_rel c of
                     None \<Rightarrow> []
                   | Some m \<Rightarrow> (case m name of None \<Rightarrow> [] | Some xs \<Rightarrow> xs)))"

text \<open>The preferred LUI of a concept, when the key is present, occurs in its LUI list.\<close>

definition preferred_in_lui :: "concept \<Rightarrow> bool" where
  "preferred_in_lui c =
     (case c_preferred c of
        None \<Rightarrow> True
      | Some l \<Rightarrow> (case c_lui c of None \<Rightarrow> False | Some ls \<Rightarrow> l \<in> set ls))"


text \<open>
  A string made of word characters and single spaces only: every character is a word
  character or the space, and no two spaces are adjacent.
\<close>

fun no_double_space :: "ustr \<Rightarrow> bool" where
  "no_double_space (a # b # cs) = (\<not> (a = 32 \<and> b = 32) \<and> no_double_space (b # cs))"
| "no_double_space cs = True"

definition words_and_single_spaces :: "(nat \<Rightarrow> bool) \<Rightarrow> ustr \<Rightarrow> bool" where
  "words_and_single_spaces isword s =
     (list_all (\<lambda>c. isword c \<or> c = 32) s \<and> no_double_space s)"

text \<open>
  What the file holds for the MRCONSO passes: the rows that the language filter lets
  through, in file order, and the values of one column over the rows that have a given
  key in another column. \<open>the_list\<close> reads a list-valued key of an aggregate, the
  empty list when the key is absent.
\<close>

definition the_list :: "'a list option \<Rightarrow> 'a list" where
  "the_list l = (case l of None \<Rightarrow> [] | Some xs \<Rightarrow> xs)"

definition accepted_rows :: "ustr list \<Rightarrow> ustr list \<Rightarrow> ustr list list" where
  "accepted_rows languages fl =
     filter (\<lambda>split. languages = [] \<or> split ! 1 \<in> set languages) (map split_record fl)"

definition column_of :: "nat \<Rightarrow> ustr \<Rightarrow> nat \<Rightarrow> ustr list list \<Rightarrow> ustr list" where
  "column_of k key v rows = map (\<lambda>split. split ! v) (filter (\<lambda>split. split ! k = key) rows)"

section \<open>A small META directory\<close>

text \<open>
  Rows in the column layout of the release files, used to run the passes on a concrete
  input: two English atoms of \<open>C001\<close> and a French atom of \<open>C004\<close>, one definition, one
  relation row between \<open>C001\<close> and \<open>C002\<close>, and semantic types for \<open>C001\<close> and
  \<open>C003\<close>.
\<close>

definition example_dir :: meta_dir where
  "example_dir =
     \<lparr>MRCONSO =
        [u ''C001|ENG|P|L001|PF|S001|Y|A0001||||SRC|PT|D001|Hello, World!|0|N||'' @ [10],
         u ''C001|ENG|S|L002|PF|S002|Y|A0002||||SRC|PT|D001|hello world|0|N||'' @ [10],
         u ''C004|FRE|P|L003|PF|S003|Y|A0003||||SRC|PT|D002|Bonjour|0|N||'' @ [10]],
      MRDEF = [u ''C001|A0001|AT001||SRC|A greeting.|N||'' @ [10]],
      MRREL = [u ''C001|A0001|SCUI|PAR|C002|A0002|SCUI||R0001||SRC|SRC|||N||'' @ [10]],
      MRSTY = [u ''C001|T078|A2.1.2|Idea|AT002||'' @ [10],
               u ''C003|T078|A2.1.2|Idea|AT003||'' @ [10]]\<rparr>"

section \<open>Basic facts\<close>

lemma ebind_Inl [simp]: "ebind (Inl e) f = Inl e"
  by (simp add: ebind_def)

lemma ebind_Inr [simp]: "ebind (Inr x) f = f x"
  by (simp add: ebind_def)

lemma ebind_eq_Inr: "(ebind m f = Inr y) = (\<exists>x. m = Inr x \<and> f x = Inr y)"
  by (cases m) auto

lemma py_index_eq_Inr: "(py_index xs i = Inr x) = (i < length xs \<and> xs ! i = x)"
  by (auto simp: py_index_def)

lemma py_index_less [simp]: "i < length xs \<Longrightarrow> py_index xs i = Inr (xs ! i)"
  by (simp add: py_index_def)

lemma py_index_ge [simp]: "length xs \<le> i \<Longrightarrow> py_index xs i = Inl IndexError"
  by (simp add: py_index_def)

lemma enumerate_idx_eq:
  "enumerate_idx i idx ls = (if ls = [] then idx else Some (i + length ls - 1))"
  by (induction ls arbitrary: i idx) auto

lemma num_lines_eq:
  "num_lines file = (if file = [] then Inl UnboundLocalError else Inr (length file - 1))"
  by (simp add: num_lines_def enumerate_idx_eq)

lemma num_lines_nonempty [simp]: "num_lines (l # ls) = Inr (length ls)"
  by (simp add: num_lines_eq)

lemma num_lines_Nil [simp]: "num_lines [] = Inl UnboundLocalError"
  by (simp add: num_lines_eq)

lemma efold_append:
  "efold f (xs @ ys) s = (case efold f xs s of Inl e \<Rightarrow> Inl e | Inr s' \<Rightarrow> efold f ys s')"
  by (induction xs arbitrary: s) (auto split: sum.splits)

lemma efold_invariant:
  assumes "efold f xs s = Inr s'" and "I s"
    and "\<And>a x b. x \<in> set xs \<Longrightarrow> I a \<Longrightarrow> f a x = Inr b \<Longrightarrow> I b"
  shows "I s'"
  using assms
proof (induction xs arbitrary: s)
  case Nil
  then show ?case by simp
next
  case (Cons x xs)
  from Cons.prems(1) obtain s1 where s1: "f s x = Inr s1" "efold f xs s1 = Inr s'"
    by (auto split: sum.splits)
  have "I s1"
    by (rule Cons.prems(3) [OF _ Cons.prems(2) s1(1)]) simp
  moreover have "\<And>a y b. y \<in> set xs \<Longrightarrow> I a \<Longrightarrow> f a y = Inr b \<Longrightarrow> I b"
    using Cons.prems(3) by (meson list.set_intros(2))
  ultimately show ?case
    using Cons.IH [OF s1(2)] by blast
qed

lemma efold_raises:
  assumes "x \<in> set xs" and "\<And>a. \<exists>e. f a x = Inl e"
  shows "\<exists>e. efold f xs s = Inl e"
  using assms(1)
proof (induction xs arbitrary: s)
  case Nil
  then show ?case by simp
next
  case (Cons y ys)
  show ?case
  proof (cases "f s y")
    case (Inl e)
    then show ?thesis by simp
  next
    case (Inr s1)
    show ?thesis
    proof (cases "y = x")
      case True
      with assms(2) [of s] Inr show ?thesis by simp
    next
      case False
      with Cons.prems have "x \<in> set ys" by simp
      from Cons.IH [OF this] Inr show ?thesis by simp
    qed
  qed
qed

lemma efold_raises_only:
  assumes "x \<in> set xs" and "\<And>a. f a x = Inl err"
    and "\<And>a y e. y \<in> set xs \<Longrightarrow> f a y = Inl e \<Longrightarrow> e = err"
  shows "efold f xs s = Inl err"
  using assms(1,3)
proof (induction xs arbitrary: s)
  case Nil
  then show ?case by simp
next
  case (Cons y ys)
  show ?case
  proof (cases "f s y")
    case (Inl e)
    with Cons.prems(2) [of y s e] show ?thesis by simp
  next
    case (Inr s1)
    show ?thesis
    proof (cases "y = x")
      case True
      with assms(2) [of s] Inr show ?thesis by simp
    next
      case False
      with Cons.prems have "x \<in> set ys" by simp
      moreover have "\<And>a z e. z \<in> set ys \<Longrightarrow> f a z = Inl e \<Longrightarrow> e = err"
        using Cons.prems(2) by (meson list.set_intros(2))
      ultimately have "efold f ys s1 = Inl err"
        by (rule Cons.IH)
      with Inr show ?thesis by simp
    qed
  qed
qed

lemma mrrel_row_eq:
  assumes "5 \<le> length split"
  shows "mrrel_row concepts split =
     (case RELATIONMAPPING (split ! 3) of
        None \<Rightarrow> Inl KeyError
      | Some rel \<Rightarrow>
          (let c = get_concept concepts (split ! 4);
               m = (case c_rel c of None \<Rightarrow> Map.empty | Some m \<Rightarrow> m)
           in Inr (concepts(split ! 4 \<mapsto>
                 c\<lparr>c_rel := Some (m(rel := append_to (m rel) (split ! 0)))\<rparr>))))"
proof -
  from assms have "split \<noteq> []" by auto
  then have "py_index split 0 = Inr (split ! 0)"
    by (simp add: py_index_def)
  with assms show ?thesis
    by (simp add: mrrel_row_def split: option.splits)
qed

lemma mrrel_row_error:
  "mrrel_row concepts split = Inl e \<Longrightarrow> 5 \<le> length split \<Longrightarrow> e = KeyError"
  by (auto simp: mrrel_row_eq Let_def split: option.splits)

subsection \<open>What a successful row has done\<close>

lemma rejected_cases:
  "rejected languages split = Inr b \<Longrightarrow> b = (\<not> (languages = [] \<or> split ! 1 \<in> set languages))"
  by (auto simp: rejected_def ebind_eq_Inr py_index_eq_Inr split: if_splits)

lemma get_concept_Some [simp]: "cs k = Some c \<Longrightarrow> get_concept cs k = c"
  by (simp add: get_concept_def)

lemma get_concept_None [simp]: "cs k = None \<Longrightarrow> get_concept cs k = new_concept"
  by (simp add: get_concept_def)

lemma concepts_row_Inr:
  assumes "concepts_row languages cs split = Inr cs'"
  shows "(\<not> (languages = [] \<or> split ! 1 \<in> set languages) \<and> cs' = cs)
    \<or> ((languages = [] \<or> split ! 1 \<in> set languages) \<and> 6 \<le> length split
        \<and> cs' = cs(split ! 0 \<mapsto>
              (get_concept cs (split ! 0))
                \<lparr>c_id := Some (split ! 0),
                 c_preferred := (if split ! 2 = u ''P'' then Some (split ! 3)
                                 else c_preferred (get_concept cs (split ! 0))),
                 c_lui := append_to (c_lui (get_concept cs (split ! 0))) (split ! 3),
                 c_sui := append_to (c_sui (get_concept cs (split ! 0))) (split ! 5)\<rparr>))"
proof -
  from assms obtain skip where sk: "rejected languages split = Inr skip"
    and rest: "(if skip then Inr cs else
         ebind (py_index split 0) (\<lambda>cui.
         ebind (py_index split 5) (\<lambda>sui.
         ebind (py_index split 3) (\<lambda>lui.
         ebind (py_index split 2) (\<lambda>status.
           let c0 = (get_concept cs cui)\<lparr>c_id := Some cui\<rparr>;
               c1 = (if status = u ''P'' then c0\<lparr>c_preferred := Some lui\<rparr> else c0);
               c2 = c1\<lparr>c_lui := append_to (c_lui c1) lui\<rparr>;
               c3 = c2\<lparr>c_sui := append_to (c_sui c2) sui\<rparr>
           in Inr (cs(cui \<mapsto> c3))))))) = Inr cs'"
    unfolding concepts_row_def ebind_eq_Inr by blast
  note acc = rejected_cases [OF sk]
  show ?thesis
  proof (cases skip)
    case True
    with rest acc show ?thesis by simp
  next
    case False
    with rest have r: "ebind (py_index split 0) (\<lambda>cui.
         ebind (py_index split 5) (\<lambda>sui.
         ebind (py_index split 3) (\<lambda>lui.
         ebind (py_index split 2) (\<lambda>status.
           let c0 = (get_concept cs cui)\<lparr>c_id := Some cui\<rparr>;
               c1 = (if status = u ''P'' then c0\<lparr>c_preferred := Some lui\<rparr> else c0);
               c2 = c1\<lparr>c_lui := append_to (c_lui c1) lui\<rparr>;
               c3 = c2\<lparr>c_sui := append_to (c_sui c2) sui\<rparr>
           in Inr (cs(cui \<mapsto> c3)))))) = Inr cs'" by simp
    then have len: "5 < length split"
      by (auto simp: ebind_eq_Inr py_index_eq_Inr)
    then have "split \<noteq> []" by auto
    then have i0: "py_index split 0 = Inr (split ! 0)" by (simp add: py_index_def)
    from r len i0 have "cs' = cs(split ! 0 \<mapsto>
              (get_concept cs (split ! 0))
                \<lparr>c_id := Some (split ! 0),
                 c_preferred := (if split ! 2 = u ''P'' then Some (split ! 3)
                                 else c_preferred (get_concept cs (split ! 0))),
                 c_lui := append_to (c_lui (get_concept cs (split ! 0))) (split ! 3),
                 c_sui := append_to (c_sui (get_concept cs (split ! 0))) (split ! 5)\<rparr>)"
      by (auto simp: Let_def)
    with False acc len show ?thesis by simp
  qed
qed

lemma mrrel_row_Inr:
  assumes "mrrel_row cs split = Inr cs'"
  shows "\<exists>rel. 5 \<le> length split \<and> RELATIONMAPPING (split ! 3) = Some rel
    \<and> cs' = cs(split ! 4 \<mapsto> (get_concept cs (split ! 4))
          \<lparr>c_rel := Some ((case c_rel (get_concept cs (split ! 4)) of
                             None \<Rightarrow> Map.empty | Some m \<Rightarrow> m)
             (rel := append_to ((case c_rel (get_concept cs (split ! 4)) of
                             None \<Rightarrow> Map.empty | Some m \<Rightarrow> m) rel) (split ! 0)))\<rparr>)"
proof -
  from assms have len: "4 < length split"
    by (auto simp: mrrel_row_def ebind_eq_Inr py_index_eq_Inr)
  then have "5 \<le> length split" by simp
  from assms mrrel_row_eq [OF this, of cs] len show ?thesis
    by (auto simp: Let_def split: option.splits)
qed

lemma mrsty_row_Inr:
  assumes "mrsty_row cs split = Inr cs'"
  shows "3 \<le> length split
    \<and> cs' = cs(split ! 0 \<mapsto> (get_concept cs (split ! 0))
          \<lparr>c_semtype := append_to (c_semtype (get_concept cs (split ! 0))) (split ! 2)\<rparr>)"
  using assms by (auto simp: mrsty_row_def ebind_eq_Inr py_index_eq_Inr Let_def)

lemma mrdef_row_Inr:
  assumes "mrdef_row classify isolangs preprocessor cs split = Inr cs'"
  shows "6 \<le> length split \<and>
    (if classify (split ! 5) \<notin> set isolangs then cs' = cs
     else cs' = cs(split ! 0 \<mapsto> (get_concept cs (split ! 0))
          \<lparr>c_definition := append_to (c_definition (get_concept cs (split ! 0)))
              (case preprocessor of None \<Rightarrow> split ! 5 | Some p \<Rightarrow> p (split ! 5))\<rparr>))"
  using assms
  by (auto simp: mrdef_row_def ebind_eq_Inr py_index_eq_Inr Let_def split: if_splits)

lemma relist_definitions_id [simp]: "relist_definitions cs = cs"
  by (rule ext) (simp add: relist_definitions_def split: option.splits)

lemma process_mrrel_Inr:
  "process_mrrel path cs = Inr cs' \<Longrightarrow>
     MRREL path \<noteq> [] \<and> efold (\<lambda>cs r. mrrel_row cs (split_record r)) (MRREL path) cs = Inr cs'"
  by (auto simp: process_mrrel_def ebind_eq_Inr)

lemma process_mrsty_Inr:
  "process_mrsty path cs = Inr cs' \<Longrightarrow>
     MRSTY path \<noteq> [] \<and> efold (\<lambda>cs r. mrsty_row cs (split_record r)) (MRSTY path) cs = Inr cs'"
  by (auto simp: process_mrsty_def ebind_eq_Inr)

lemma process_mrdef_Inr:
  "process_mrdef classify path cs languages preprocessor = Inr cs' \<Longrightarrow>
     \<exists>isolangs. isolanguages languages = Inr isolangs \<and> MRDEF path \<noteq> [] \<and>
       efold (\<lambda>cs r. mrdef_row classify isolangs preprocessor cs (split_record r))
         (MRDEF path) cs = Inr cs'"
  by (auto simp: process_mrdef_def ebind_eq_Inr)

lemma create_concepts_Inr:
  assumes "create_concepts classify path pd pr ps languages preprocessor = Inr cs"
  obtains c0 c1 c2 where
    "efold (\<lambda>cs r. concepts_row languages cs (split_record r)) (MRCONSO path) Map.empty = Inr c0"
    "(if pd then process_mrdef classify path c0 languages preprocessor else Inr c0) = Inr c1"
    "(if pr then process_mrrel path c1 else Inr c1) = Inr c2"
    "(if ps then process_mrsty path c2 else Inr c2) = Inr cs"
  using assms unfolding create_concepts_def ebind_eq_Inr by blast

section \<open>The counting scan\<close>

text \<open>
  C4: the scan before each pass is to give the number of lines of the file. The loop
  leaves the index of the last line in \<open>idx\<close>, so \<open>num_lines\<close> is one less than the
  number of lines, and a file without lines leaves \<open>idx\<close> unbound: the assignment
  \<open>num_lines = idx\<close> raises instead of giving 0.
\<close>

theorem num_lines_off_by_one:
  "num_lines [u ''C001|ENG'', u ''C002|ENG'', u ''C003|ENG''] = Inr 2
   \<and> num_lines [u ''C001|ENG''] = Inr 0
   \<and> num_lines ([] :: ustr list) = Inl UnboundLocalError"
  by (simp add: num_lines_def)

section \<open>Relation codes outside the table\<close>

lemma split_unknown_row:
  "split_record (u ''C001|A1|SCUI|ZZZ|C002|A2'' @ [10])
     = [u ''C001'', u ''A1'', u ''SCUI'', u ''ZZZ'', u ''C002'', u ''A2'']"
  by (simp add: split_record_def strip_def isspace_def u_def)

lemma split_parent_row:
  "split_record (u ''C001|A1|SCUI|PAR|C002|A2'' @ [10])
     = [u ''C001'', u ''A1'', u ''SCUI'', u ''PAR'', u ''C002'', u ''A2'']"
  by (simp add: split_record_def strip_def isspace_def u_def)

lemma RELATIONMAPPING_ZZZ: "RELATIONMAPPING (u ''ZZZ'') = None"
  by (simp add: RELATIONMAPPING_def u_def)

lemma RELATIONMAPPING_PAR: "RELATIONMAPPING (u ''PAR'') = Some (u ''parent'')"
  by (simp add: RELATIONMAPPING_def u_def)

lemma mrrel_row_short: "length split < 5 \<Longrightarrow> mrrel_row concepts split = Inl IndexError"
  by (simp add: mrrel_row_def)

text \<open>
  C6: a relation row whose code (column 3) is outside \<open>RELATIONMAPPING\<close> always makes
  the pass raise: KeyError when the row has its five leading columns (IndexError, from
  \<open>split[4]\<close>, when column 4 is missing). A row whose code is in the table never raises
  KeyError, and is processed when it has its five columns. The error is not skipped: a
  relation file that holds a row with an unknown code never yields a result, and when
  every row has its five columns the pass ends with that KeyError.
\<close>

theorem unknown_relation_code_fatal:
  "(RELATIONMAPPING (split ! 3) = None
      \<longrightarrow> (\<exists>e. mrrel_row concepts split = Inl e)
          \<and> (5 \<le> length split \<longrightarrow> mrrel_row concepts split = Inl KeyError))
    \<and> (RELATIONMAPPING (split ! 3) \<noteq> None
      \<longrightarrow> mrrel_row concepts split \<noteq> Inl KeyError
          \<and> (5 \<le> length split \<longrightarrow> (\<exists>concepts'. mrrel_row concepts split = Inr concepts')))
    \<and> (RELATIONMAPPING (split ! 3) = None \<and> line \<in> set (MRREL path)
         \<and> split_record line = split
       \<longrightarrow> (\<exists>e. process_mrrel path concepts0 = Inl e)
           \<and> ((\<forall>r \<in> set (MRREL path). 5 \<le> length (split_record r))
                \<longrightarrow> process_mrrel path concepts0 = Inl KeyError))"
proof (intro conjI impI)
  assume "RELATIONMAPPING (split ! 3) = None"
  then show "\<exists>e. mrrel_row concepts split = Inl e"
    by (cases "5 \<le> length split") (simp_all add: mrrel_row_eq mrrel_row_short)
next
  assume "RELATIONMAPPING (split ! 3) = None" and "5 \<le> length split"
  then show "mrrel_row concepts split = Inl KeyError"
    by (simp add: mrrel_row_eq)
next
  assume "RELATIONMAPPING (split ! 3) \<noteq> None"
  then show "mrrel_row concepts split \<noteq> Inl KeyError"
    by (cases "5 \<le> length split") (auto simp: mrrel_row_eq mrrel_row_short Let_def)
next
  assume "RELATIONMAPPING (split ! 3) \<noteq> None" and "5 \<le> length split"
  then show "\<exists>concepts'. mrrel_row concepts split = Inr concepts'"
    by (auto simp: mrrel_row_eq Let_def)
next
  assume a: "RELATIONMAPPING (split ! 3) = None \<and> line \<in> set (MRREL path)
         \<and> split_record line = split"
  then have ne: "MRREL path \<noteq> []" by auto
  have row: "\<And>a. \<exists>e. mrrel_row a (split_record line) = Inl e"
    using a by (cases "5 \<le> length split") (simp_all add: mrrel_row_eq mrrel_row_short)
  have "\<exists>e. efold (\<lambda>cs r. mrrel_row cs (split_record r)) (MRREL path) concepts0 = Inl e"
    using a row by (intro efold_raises [where x = line]) auto
  then show "\<exists>e. process_mrrel path concepts0 = Inl e"
    using ne by (simp add: process_mrrel_def num_lines_eq)
next
  assume a: "RELATIONMAPPING (split ! 3) = None \<and> line \<in> set (MRREL path)
         \<and> split_record line = split"
    and all: "\<forall>r \<in> set (MRREL path). 5 \<le> length (split_record r)"
  then have ne: "MRREL path \<noteq> []" by auto
  from a all have "5 \<le> length split" by auto
  then have row: "\<And>a. mrrel_row a (split_record line) = Inl KeyError"
    using a by (simp add: mrrel_row_eq)
  have "efold (\<lambda>cs r. mrrel_row cs (split_record r)) (MRREL path) concepts0 = Inl KeyError"
    using a row all by (intro efold_raises_only [where x = line]) (auto dest: mrrel_row_error)
  then show "process_mrrel path concepts0 = Inl KeyError"
    using ne by (simp add: process_mrrel_def num_lines_eq)
qed

theorem unknown_relation_code_fatal_witness:
  "RELATIONMAPPING (split_record (u ''C001|A1|SCUI|ZZZ|C002|A2'' @ [10]) ! 3) = None
   \<and> mrrel_row Map.empty (split_record (u ''C001|A1|SCUI|ZZZ|C002|A2'' @ [10])) = Inl KeyError
   \<and> process_mrrel
        \<lparr>MRCONSO = [], MRDEF = [],
         MRREL = [u ''C001|A1|SCUI|PAR|C002|A2'' @ [10], u ''C001|A1|SCUI|ZZZ|C002|A2'' @ [10]],
         MRSTY = []\<rparr> Map.empty = Inl KeyError
   \<and> RELATIONMAPPING (split_record (u ''C001|A1|SCUI|PAR|C002|A2'' @ [10]) ! 3) \<noteq> None
   \<and> (\<exists>concepts'. mrrel_row Map.empty (split_record (u ''C001|A1|SCUI|PAR|C002|A2'' @ [10]))
         = Inr concepts')"
  using unknown_relation_code_fatal
    [of "split_record (u ''C001|A1|SCUI|ZZZ|C002|A2'' @ [10])" Map.empty
        "u ''C001|A1|SCUI|ZZZ|C002|A2'' @ [10]"
        "\<lparr>MRCONSO = [], MRDEF = [],
          MRREL = [u ''C001|A1|SCUI|PAR|C002|A2'' @ [10], u ''C001|A1|SCUI|ZZZ|C002|A2'' @ [10]],
          MRSTY = []\<rparr>" Map.empty]
    unknown_relation_code_fatal
    [of "split_record (u ''C001|A1|SCUI|PAR|C002|A2'' @ [10])" Map.empty]
  by (simp add: split_unknown_row split_parent_row RELATIONMAPPING_ZZZ RELATIONMAPPING_PAR)

section \<open>The direction recorded by the relations pass\<close>

lemma split_rel_example:
  "split_record (u ''C001|A0001|SCUI|PAR|C002|A0002|SCUI||R0001||SRC|SRC|||N||'' @ [10])
     = [u ''C001'', u ''A0001'', u ''SCUI'', u ''PAR'', u ''C002'', u ''A0002'', u ''SCUI'', [],
        u ''R0001'', [], u ''SRC'', u ''SRC'', [], [], u ''N'', [], []]"
  by (simp add: split_record_def strip_def isspace_def u_def)






section \<open>The passes on the small directory\<close>

lemma u_eq_iff [simp]: "(u a = u b) = (a = b)"
  by (simp add: u_def inj_of_char)

lemma u_Nil_iff [simp]: "(u a = []) = (a = [])" "([] = u a) = (a = [])"
  by (auto simp: u_def)

lemma example_conso_rows:
  "split_record (u ''C001|ENG|P|L001|PF|S001|Y|A0001||||SRC|PT|D001|Hello, World!|0|N||'' @ [10])
     = [u ''C001'', u ''ENG'', u ''P'', u ''L001'', u ''PF'', u ''S001'', u ''Y'', u ''A0001'',
        [], [], [], u ''SRC'', u ''PT'', u ''D001'', u ''Hello, World!'', u ''0'', u ''N'', [], []]"
  "split_record (u ''C001|ENG|S|L002|PF|S002|Y|A0002||||SRC|PT|D001|hello world|0|N||'' @ [10])
     = [u ''C001'', u ''ENG'', u ''S'', u ''L002'', u ''PF'', u ''S002'', u ''Y'', u ''A0002'',
        [], [], [], u ''SRC'', u ''PT'', u ''D001'', u ''hello world'', u ''0'', u ''N'', [], []]"
  "split_record (u ''C004|FRE|P|L003|PF|S003|Y|A0003||||SRC|PT|D002|Bonjour|0|N||'' @ [10])
     = [u ''C004'', u ''FRE'', u ''P'', u ''L003'', u ''PF'', u ''S003'', u ''Y'', u ''A0003'',
        [], [], [], u ''SRC'', u ''PT'', u ''D002'', u ''Bonjour'', u ''0'', u ''N'', [], []]"
  by (simp_all add: split_record_def strip_def isspace_def u_def)

lemma example_other_rows:
  "split_record (u ''C001|A0001|AT001||SRC|A greeting.|N||'' @ [10])
     = [u ''C001'', u ''A0001'', u ''AT001'', [], u ''SRC'', u ''A greeting.'', u ''N'', [], []]"
  "split_record (u ''C001|T078|A2.1.2|Idea|AT002||'' @ [10])
     = [u ''C001'', u ''T078'', u ''A2.1.2'', u ''Idea'', u ''AT002'', [], []]"
  "split_record (u ''C003|T078|A2.1.2|Idea|AT003||'' @ [10])
     = [u ''C003'', u ''T078'', u ''A2.1.2'', u ''Idea'', u ''AT003'', [], []]"
  by (simp_all add: split_record_def strip_def isspace_def u_def)

lemma LANGDICT_ENG: "LANGDICT (u ''ENG'') = Some (u ''en'')"
  by (simp add: LANGDICT_def u_def)

lemma example_concepts_ENG:
  "\<exists>concepts. create_concepts (\<lambda>d. u ''en'') example_dir True True True [u ''ENG''] None
       = Inr concepts
     \<and> concepts (u ''C001'') =
         Some \<lparr>c_id = Some (u ''C001''), c_preferred = Some (u ''L001''),
               c_lui = Some [u ''L001'', u ''L002''], c_sui = Some [u ''S001'', u ''S002''],
               c_definition = Some [u ''A greeting.''], c_rel = None,
               c_semtype = Some [u ''A2.1.2'']\<rparr>
     \<and> concepts (u ''C004'') = None
     \<and> map_option c_semtype (concepts (u ''C003'')) = Some (Some [u ''A2.1.2''])
     \<and> rel_list concepts (u ''C002'') (u ''parent'') = [u ''C001'']"
  by (simp add: create_concepts_def example_dir_def example_conso_rows example_other_rows
      split_rel_example concepts_row_def rejected_def process_mrdef_def LANGDICT_ENG
      mrdef_row_def process_mrrel_def mrrel_row_eq RELATIONMAPPING_PAR process_mrsty_def
      mrsty_row_def get_concept_def new_concept_def append_to_def rel_list_def Let_def)

section \<open>The preferred LUI\<close>

lemma preferred_in_lui_get:
  "\<forall>k c. cs k = Some c \<longrightarrow> preferred_in_lui c \<Longrightarrow> preferred_in_lui (get_concept cs k)"
  by (cases "cs k") (simp_all add: preferred_in_lui_def new_concept_def)

lemma concepts_row_preferred:
  assumes "concepts_row languages cs split = Inr cs'"
    and "\<forall>k c. cs k = Some c \<longrightarrow> preferred_in_lui c"
  shows "\<forall>k c. cs' k = Some c \<longrightarrow> preferred_in_lui c"
proof -
  have g: "preferred_in_lui (get_concept cs (split ! 0))"
    by (rule preferred_in_lui_get [OF assms(2)])
  have "preferred_in_lui ((get_concept cs (split ! 0))
                \<lparr>c_id := Some (split ! 0),
                 c_preferred := (if split ! 2 = u ''P'' then Some (split ! 3)
                                 else c_preferred (get_concept cs (split ! 0))),
                 c_lui := append_to (c_lui (get_concept cs (split ! 0))) (split ! 3),
                 c_sui := append_to (c_sui (get_concept cs (split ! 0))) (split ! 5)\<rparr>)"
    using g by (auto simp: preferred_in_lui_def append_to_def split: option.splits)
  with concepts_row_Inr [OF assms(1)] assms(2) show ?thesis
    by (auto split: if_splits)
qed

lemma mrdef_row_preferred:
  assumes "mrdef_row classify isolangs preprocessor cs split = Inr cs'"
    and "\<forall>k c. cs k = Some c \<longrightarrow> preferred_in_lui c"
  shows "\<forall>k c. cs' k = Some c \<longrightarrow> preferred_in_lui c"
proof -
  have g: "preferred_in_lui (get_concept cs (split ! 0))"
    by (rule preferred_in_lui_get [OF assms(2)])
  then have "\<And>x. preferred_in_lui ((get_concept cs (split ! 0))\<lparr>c_definition := x\<rparr>)"
    by (auto simp: preferred_in_lui_def split: option.splits)
  with mrdef_row_Inr [OF assms(1)] assms(2) show ?thesis
    by (auto split: if_splits)
qed

lemma mrrel_row_preferred:
  assumes "mrrel_row cs split = Inr cs'"
    and "\<forall>k c. cs k = Some c \<longrightarrow> preferred_in_lui c"
  shows "\<forall>k c. cs' k = Some c \<longrightarrow> preferred_in_lui c"
proof -
  have g: "preferred_in_lui (get_concept cs (split ! 4))"
    by (rule preferred_in_lui_get [OF assms(2)])
  then have "\<And>x. preferred_in_lui ((get_concept cs (split ! 4))\<lparr>c_rel := x\<rparr>)"
    by (auto simp: preferred_in_lui_def split: option.splits)
  with mrrel_row_Inr [OF assms(1)] assms(2) show ?thesis
    by (auto split: if_splits)
qed

lemma mrsty_row_preferred:
  assumes "mrsty_row cs split = Inr cs'"
    and "\<forall>k c. cs k = Some c \<longrightarrow> preferred_in_lui c"
  shows "\<forall>k c. cs' k = Some c \<longrightarrow> preferred_in_lui c"
proof -
  have g: "preferred_in_lui (get_concept cs (split ! 0))"
    by (rule preferred_in_lui_get [OF assms(2)])
  then have "\<And>x. preferred_in_lui ((get_concept cs (split ! 0))\<lparr>c_semtype := x\<rparr>)"
    by (auto simp: preferred_in_lui_def split: option.splits)
  with mrsty_row_Inr [OF assms(1)] assms(2) show ?thesis
    by (auto split: if_splits)
qed

text \<open>
  C5: in the concept set that \<open>_create_concepts\<close> returns, a concept that has the key
  \<open>"preferred"\<close> has the key \<open>"lui"\<close>, and the preferred LUI is an element of that list.
\<close>

theorem preferred_lui_in_lui_list:
  assumes "create_concepts classify path process_definitions process_relations
             process_semantic_types languages preprocessor = Inr concepts"
    and "concepts cui = Some c"
  shows "preferred_in_lui c"
proof -
  from assms(1) obtain c0 c1 c2 where
    s0: "efold (\<lambda>cs r. concepts_row languages cs (split_record r)) (MRCONSO path) Map.empty
           = Inr c0"
    and s1: "(if process_definitions
              then process_mrdef classify path c0 languages preprocessor else Inr c0) = Inr c1"
    and s2: "(if process_relations then process_mrrel path c1 else Inr c1) = Inr c2"
    and s3: "(if process_semantic_types then process_mrsty path c2 else Inr c2) = Inr concepts"
    by (rule create_concepts_Inr)
  have i0: "\<forall>k c. c0 k = Some c \<longrightarrow> preferred_in_lui c"
    by (rule efold_invariant [OF s0]) (auto dest: concepts_row_preferred)
  have i1: "\<forall>k c. c1 k = Some c \<longrightarrow> preferred_in_lui c"
  proof (cases process_definitions)
    case True
    with s1 obtain isolangs where
      "efold (\<lambda>cs r. mrdef_row classify isolangs preprocessor cs (split_record r))
         (MRDEF path) c0 = Inr c1"
      by (auto dest: process_mrdef_Inr)
    then show ?thesis
      by (rule efold_invariant) (use i0 in \<open>auto dest: mrdef_row_preferred\<close>)
  next
    case False
    with s1 i0 show ?thesis by simp
  qed
  have i2: "\<forall>k c. c2 k = Some c \<longrightarrow> preferred_in_lui c"
  proof (cases process_relations)
    case True
    with s2 have "efold (\<lambda>cs r. mrrel_row cs (split_record r)) (MRREL path) c1 = Inr c2"
      by (auto dest: process_mrrel_Inr)
    then show ?thesis
      by (rule efold_invariant) (use i1 in \<open>auto dest: mrrel_row_preferred\<close>)
  next
    case False
    with s2 i1 show ?thesis by simp
  qed
  have i3: "\<forall>k c. concepts k = Some c \<longrightarrow> preferred_in_lui c"
  proof (cases process_semantic_types)
    case True
    with s3 have "efold (\<lambda>cs r. mrsty_row cs (split_record r)) (MRSTY path) c2 = Inr concepts"
      by (auto dest: process_mrsty_Inr)
    then show ?thesis
      by (rule efold_invariant) (use i2 in \<open>auto dest: mrsty_row_preferred\<close>)
  next
    case False
    with s3 i2 show ?thesis by simp
  qed
  with assms(2) show ?thesis by blast
qed

theorem preferred_lui_in_lui_list_witness:
  "\<exists>concepts c.
     create_concepts (\<lambda>d. u ''en'') example_dir True True True [u ''ENG''] None = Inr concepts
     \<and> concepts (u ''C001'') = Some c \<and> c_preferred c = Some (u ''L001'')
     \<and> preferred_in_lui c"
proof -
  from example_concepts_ENG obtain concepts where
    r: "create_concepts (\<lambda>d. u ''en'') example_dir True True True [u ''ENG''] None
          = Inr concepts"
    and k: "concepts (u ''C001'') =
         Some \<lparr>c_id = Some (u ''C001''), c_preferred = Some (u ''L001''),
               c_lui = Some [u ''L001'', u ''L002''], c_sui = Some [u ''S001'', u ''S002''],
               c_definition = Some [u ''A greeting.''], c_rel = None,
               c_semtype = Some [u ''A2.1.2'']\<rparr>"
    by blast
  from preferred_lui_in_lui_list [OF r k] r k show ?thesis
    by simp
qed

section \<open>Definitions under an empty language set\<close>

lemma isolanguages_Nil_Inr: "isolanguages [] = Inr isolangs \<Longrightarrow> isolangs = []"
  by simp

lemma concepts_row_no_definition:
  assumes "concepts_row languages cs split = Inr cs'"
    and "\<forall>k c. cs k = Some c \<longrightarrow> c_definition c = None"
  shows "\<forall>k c. cs' k = Some c \<longrightarrow> c_definition c = None"
proof -
  have "c_definition (get_concept cs (split ! 0)) = None"
    using assms(2) by (cases "cs (split ! 0)") (simp_all add: new_concept_def)
  with concepts_row_Inr [OF assms(1)] assms(2) show ?thesis
    by (auto split: if_splits)
qed

lemma mrrel_row_no_definition:
  assumes "mrrel_row cs split = Inr cs'"
    and "\<forall>k c. cs k = Some c \<longrightarrow> c_definition c = None"
  shows "\<forall>k c. cs' k = Some c \<longrightarrow> c_definition c = None"
proof -
  have "c_definition (get_concept cs (split ! 4)) = None"
    using assms(2) by (cases "cs (split ! 4)") (simp_all add: new_concept_def)
  with mrrel_row_Inr [OF assms(1)] assms(2) show ?thesis
    by (auto split: if_splits)
qed

lemma mrsty_row_no_definition:
  assumes "mrsty_row cs split = Inr cs'"
    and "\<forall>k c. cs k = Some c \<longrightarrow> c_definition c = None"
  shows "\<forall>k c. cs' k = Some c \<longrightarrow> c_definition c = None"
proof -
  have "c_definition (get_concept cs (split ! 0)) = None"
    using assms(2) by (cases "cs (split ! 0)") (simp_all add: new_concept_def)
  with mrsty_row_Inr [OF assms(1)] assms(2) show ?thesis
    by (auto split: if_splits)
qed

lemma process_mrdef_no_languages:
  assumes "process_mrdef classify path cs [] preprocessor = Inr cs'"
  shows "cs' = cs"
proof -
  from process_mrdef_Inr [OF assms] obtain isolangs where
    "isolanguages [] = Inr isolangs"
    and f: "efold (\<lambda>cs r. mrdef_row classify isolangs preprocessor cs (split_record r))
         (MRDEF path) cs = Inr cs'"
    by blast
  then have e: "isolangs = []" by simp
  show ?thesis
    by (rule efold_invariant [OF f, where I = "\<lambda>x. x = cs"])
       (use e in \<open>auto dest: mrdef_row_Inr\<close>)
qed

text \<open>
  C9: with an empty language set the filter of the MRCONSO passes rejects no row, while
  the definitions pass tests the classified language of every definition against the
  empty set of mapped codes and appends nothing: the pass returns the concept set it
  was given, and no concept of the set returned by \<open>_create_concepts\<close> has the key
  \<open>"definition"\<close>.
\<close>

theorem empty_language_set_adds_no_definition:
  "rejected [] split = Inr False
   \<and> (process_mrdef classify path concepts [] preprocessor = Inr concepts'
        \<longrightarrow> concepts' = concepts)
   \<and> (create_concepts classify path True process_relations process_semantic_types []
          preprocessor = Inr result \<and> result cui = Some c
        \<longrightarrow> c_definition c = None)"
proof (intro conjI impI)
  show "rejected [] split = Inr False"
    by (simp add: rejected_def)
next
  assume "process_mrdef classify path concepts [] preprocessor = Inr concepts'"
  then show "concepts' = concepts"
    by (rule process_mrdef_no_languages)
next
  assume a: "create_concepts classify path True process_relations process_semantic_types []
          preprocessor = Inr result \<and> result cui = Some c"
  then obtain c0 c1 c2 where
    s0: "efold (\<lambda>cs r. concepts_row [] cs (split_record r)) (MRCONSO path) Map.empty = Inr c0"
    and s1: "(if True then process_mrdef classify path c0 [] preprocessor else Inr c0) = Inr c1"
    and s2: "(if process_relations then process_mrrel path c1 else Inr c1) = Inr c2"
    and s3: "(if process_semantic_types then process_mrsty path c2 else Inr c2) = Inr result"
    by (blast elim: create_concepts_Inr)
  have i0: "\<forall>k c. c0 k = Some c \<longrightarrow> c_definition c = None"
    by (rule efold_invariant [OF s0]) (auto dest: concepts_row_no_definition)
  from s1 have "c1 = c0"
    by (simp add: process_mrdef_no_languages)
  with i0 have i1: "\<forall>k c. c1 k = Some c \<longrightarrow> c_definition c = None"
    by simp
  have i2: "\<forall>k c. c2 k = Some c \<longrightarrow> c_definition c = None"
  proof (cases process_relations)
    case True
    with s2 have "efold (\<lambda>cs r. mrrel_row cs (split_record r)) (MRREL path) c1 = Inr c2"
      by (auto dest: process_mrrel_Inr)
    then show ?thesis
      by (rule efold_invariant) (use i1 in \<open>auto dest: mrrel_row_no_definition\<close>)
  next
    case False
    with s2 i1 show ?thesis by simp
  qed
  have "\<forall>k c. result k = Some c \<longrightarrow> c_definition c = None"
  proof (cases process_semantic_types)
    case True
    with s3 have "efold (\<lambda>cs r. mrsty_row cs (split_record r)) (MRSTY path) c2 = Inr result"
      by (auto dest: process_mrsty_Inr)
    then show ?thesis
      by (rule efold_invariant) (use i2 in \<open>auto dest: mrsty_row_no_definition\<close>)
  next
    case False
    with s3 i2 show ?thesis by simp
  qed
  with a show "c_definition c = None" by blast
qed

lemma example_concepts_all_languages:
  "\<exists>concepts. create_concepts (\<lambda>d. u ''en'') example_dir True True True [] None
       = Inr concepts
     \<and> concepts (u ''C001'') =
         Some \<lparr>c_id = Some (u ''C001''), c_preferred = Some (u ''L001''),
               c_lui = Some [u ''L001'', u ''L002''], c_sui = Some [u ''S001'', u ''S002''],
               c_definition = None, c_rel = None,
               c_semtype = Some [u ''A2.1.2'']\<rparr>
     \<and> map_option c_lui (concepts (u ''C004'')) = Some (Some [u ''L003''])"
  by (simp add: create_concepts_def example_dir_def example_conso_rows example_other_rows
      split_rel_example concepts_row_def rejected_def process_mrdef_def
      mrdef_row_def process_mrrel_def mrrel_row_eq RELATIONMAPPING_PAR process_mrsty_def
      mrsty_row_def get_concept_def new_concept_def append_to_def rel_list_def Let_def)

theorem empty_language_set_adds_no_definition_witness:
  "\<exists>result c.
     create_concepts (\<lambda>d. u ''en'') example_dir True True True [] None = Inr result
     \<and> result (u ''C001'') = Some c \<and> c_lui c = Some [u ''L001'', u ''L002'']
     \<and> c_definition c = None"
proof -
  from example_concepts_all_languages obtain result where
    r: "create_concepts (\<lambda>d. u ''en'') example_dir True True True [] None = Inr result"
    and k: "result (u ''C001'') =
         Some \<lparr>c_id = Some (u ''C001''), c_preferred = Some (u ''L001''),
               c_lui = Some [u ''L001'', u ''L002''], c_sui = Some [u ''S001'', u ''S002''],
               c_definition = None, c_rel = None,
               c_semtype = Some [u ''A2.1.2'']\<rparr>"
    by blast
  from empty_language_set_adds_no_definition
    [of "[]" "\<lambda>d. u ''en''" example_dir Map.empty None Map.empty True True result "u ''C001''"]
    r k show ?thesis
    by simp
qed

section \<open>Concepts that only the enrichment passes touch\<close>


lemma rel_list_get:
  "rel_list cs k n = (case c_rel (get_concept cs k) of
                        None \<Rightarrow> []
                      | Some m \<Rightarrow> (case m n of None \<Rightarrow> [] | Some xs \<Rightarrow> xs))"
  by (cases "cs k") (simp_all add: rel_list_def new_concept_def)


















section \<open>The language filter of the MRCONSO passes\<close>

lemma append_to_neq [simp]: "append_to l x \<noteq> l"
  by (cases l) (simp_all add: append_to_def)

lemma append_to_neq' [simp]: "l \<noteq> append_to l x"
  by (cases l) (simp_all add: append_to_def)

lemma get_term_Some [simp]: "ts k = Some t \<Longrightarrow> get_term ts k = t"
  by (simp add: get_term_def)

lemma get_string_Some [simp]: "ss k = Some s \<Longrightarrow> get_string ss k = s"
  by (simp add: get_string_def)

lemma terms_row_Inr:
  assumes "terms_row languages ts split = Inr ts'"
  shows "(\<not> (languages = [] \<or> split ! 1 \<in> set languages) \<and> ts' = ts)
    \<or> ((languages = [] \<or> split ! 1 \<in> set languages) \<and> 6 \<le> length split
        \<and> ts' = ts(split ! 3 \<mapsto>
              (get_term ts (split ! 3))
                \<lparr>t_id := Some (split ! 3),
                 t_cui := append_to (t_cui (get_term ts (split ! 3))) (split ! 0),
                 t_sui := append_to (t_sui (get_term ts (split ! 3))) (split ! 5)\<rparr>))"
proof -
  from assms obtain skip where sk: "rejected languages split = Inr skip"
    and rest: "(if skip then Inr ts else
         ebind (py_index split 0) (\<lambda>cui.
         ebind (py_index split 5) (\<lambda>sui.
         ebind (py_index split 3) (\<lambda>lui.
           let t0 = (get_term ts lui)\<lparr>t_id := Some lui\<rparr>;
               t1 = t0\<lparr>t_cui := append_to (t_cui t0) cui\<rparr>;
               t2 = t1\<lparr>t_sui := append_to (t_sui t1) sui\<rparr>
           in Inr (ts(lui \<mapsto> t2)))))) = Inr ts'"
    unfolding terms_row_def ebind_eq_Inr by blast
  note acc = rejected_cases [OF sk]
  show ?thesis
  proof (cases skip)
    case True
    with rest acc show ?thesis by simp
  next
    case False
    with rest have r: "ebind (py_index split 0) (\<lambda>cui.
         ebind (py_index split 5) (\<lambda>sui.
         ebind (py_index split 3) (\<lambda>lui.
           let t0 = (get_term ts lui)\<lparr>t_id := Some lui\<rparr>;
               t1 = t0\<lparr>t_cui := append_to (t_cui t0) cui\<rparr>;
               t2 = t1\<lparr>t_sui := append_to (t_sui t1) sui\<rparr>
           in Inr (ts(lui \<mapsto> t2))))) = Inr ts'" by simp
    then have len: "5 < length split"
      by (auto simp: ebind_eq_Inr py_index_eq_Inr)
    then have "split \<noteq> []" by auto
    then have i0: "py_index split 0 = Inr (split ! 0)" by (simp add: py_index_def)
    from r len i0 have "ts' = ts(split ! 3 \<mapsto>
              (get_term ts (split ! 3))
                \<lparr>t_id := Some (split ! 3),
                 t_cui := append_to (t_cui (get_term ts (split ! 3))) (split ! 0),
                 t_sui := append_to (t_sui (get_term ts (split ! 3))) (split ! 5)\<rparr>)"
      by (auto simp: Let_def)
    with False acc len show ?thesis by simp
  qed
qed

lemma strings_row_Inr:
  assumes "strings_row isword lower languages ss split = Inr ss'"
  shows "\<exists>string. 15 \<le> length split \<and> length_guard (split ! 14) = Inr string \<and>
    ((\<not> (languages = [] \<or> split ! 1 \<in> set languages) \<and> ss' = ss)
    \<or> ((languages = [] \<or> split ! 1 \<in> set languages)
        \<and> ss' = ss(split ! 5 \<mapsto>
              (get_string ss (split ! 5))
                \<lparr>s_id := Some (split ! 5), s_string := Some string,
                 s_lower := Some (lowerwords_of isword lower string),
                 s_lang := Some (split ! 1),
                 s_numwords := Some (length (split_ws string)),
                 s_numwordslower := Some (length (split_ws (lowerwords_of isword lower string))),
                 s_lui := Some (split ! 3),
                 s_cui := append_to (s_cui (get_string ss (split ! 5))) (split ! 0)\<rparr>)))"
proof -
  from assms obtain string0 string skip where
    s0: "py_index split 14 = Inr string0"
    and g: "length_guard string0 = Inr string"
    and sk: "rejected languages split = Inr skip"
    and rest: "(if skip then Inr ss else
         ebind (py_index split 0) (\<lambda>cui.
         ebind (py_index split 5) (\<lambda>sui.
         ebind (py_index split 3) (\<lambda>lui.
         ebind (py_index split 1) (\<lambda>lang.
           let lowerwords = lowerwords_of isword lower string;
               s0 = (get_string ss sui)
                      \<lparr>s_id := Some sui, s_string := Some string, s_lower := Some lowerwords,
                       s_lang := Some lang, s_numwords := Some (length (split_ws string)),
                       s_numwordslower := Some (length (split_ws lowerwords)),
                       s_lui := Some lui\<rparr>;
               s1 = s0\<lparr>s_cui := append_to (s_cui s0) cui\<rparr>
           in Inr (ss(sui \<mapsto> s1))))))) = Inr ss'"
    unfolding strings_row_def ebind_eq_Inr by blast
  from s0 have len: "14 < length split" and s14: "string0 = split ! 14"
    by (auto simp: py_index_eq_Inr)
  then have "split \<noteq> []" by auto
  then have i0: "py_index split 0 = Inr (split ! 0)" by (simp add: py_index_def)
  note acc = rejected_cases [OF sk]
  show ?thesis
  proof (cases skip)
    case True
    with rest acc len g s14 show ?thesis by auto
  next
    case False
    with rest len i0 have "ss' = ss(split ! 5 \<mapsto>
              (get_string ss (split ! 5))
                \<lparr>s_id := Some (split ! 5), s_string := Some string,
                 s_lower := Some (lowerwords_of isword lower string),
                 s_lang := Some (split ! 1),
                 s_numwords := Some (length (split_ws string)),
                 s_numwordslower := Some (length (split_ws (lowerwords_of isword lower string))),
                 s_lui := Some (split ! 3),
                 s_cui := append_to (s_cui (get_string ss (split ! 5))) (split ! 0)\<rparr>)"
      by (auto simp: Let_def)
    with False acc len g s14 show ?thesis by auto
  qed
qed

lemma concept_update_changes:
  assumes "cs' = cs(k \<mapsto> c')" and "c_lui c' = append_to (c_lui (get_concept cs k)) x"
  shows "cs' \<noteq> cs"
proof
  assume "cs' = cs"
  with assms(1) have "cs k = Some c'" by (metis fun_upd_same)
  with assms(2) show False by simp
qed

lemma term_update_changes:
  assumes "ts' = ts(k \<mapsto> t')" and "t_cui t' = append_to (t_cui (get_term ts k)) x"
  shows "ts' \<noteq> ts"
proof
  assume "ts' = ts"
  with assms(1) have "ts k = Some t'" by (metis fun_upd_same)
  with assms(2) show False by simp
qed

lemma string_update_changes:
  assumes "ss' = ss(k \<mapsto> s')" and "s_cui s' = append_to (s_cui (get_string ss k)) x"
  shows "ss' \<noteq> ss"
proof
  assume "ss' = ss"
  with assms(1) have "ss k = Some s'" by (metis fun_upd_same)
  with assms(2) show False by simp
qed

text \<open>
  One iteration of each MRCONSO loop: a row processed without an exception appends its
  identifiers to the lists of its aggregate when the language set is empty or column 1
  is a member of it, and leaves the aggregate set as it was otherwise.
\<close>

lemma language_filter_rows:
  "(concepts_row languages cs split = Inr cs'
      \<longrightarrow> (if languages = [] \<or> split ! 1 \<in> set languages
           then cs' \<noteq> cs
             \<and> c_lui (get_concept cs' (split ! 0))
                 = append_to (c_lui (get_concept cs (split ! 0))) (split ! 3)
             \<and> c_sui (get_concept cs' (split ! 0))
                 = append_to (c_sui (get_concept cs (split ! 0))) (split ! 5)
           else cs' = cs))
   \<and> (terms_row languages ts split = Inr ts'
      \<longrightarrow> (if languages = [] \<or> split ! 1 \<in> set languages
           then ts' \<noteq> ts
             \<and> t_cui (get_term ts' (split ! 3))
                 = append_to (t_cui (get_term ts (split ! 3))) (split ! 0)
             \<and> t_sui (get_term ts' (split ! 3))
                 = append_to (t_sui (get_term ts (split ! 3))) (split ! 5)
           else ts' = ts))
   \<and> (strings_row isword lower languages ss split = Inr ss'
      \<longrightarrow> (if languages = [] \<or> split ! 1 \<in> set languages
           then ss' \<noteq> ss
             \<and> s_cui (get_string ss' (split ! 5))
                 = append_to (s_cui (get_string ss (split ! 5))) (split ! 0)
           else ss' = ss))"
proof (intro conjI impI)
  assume "concepts_row languages cs split = Inr cs'"
  from concepts_row_Inr [OF this] consider
    (skipped) "\<not> (languages = [] \<or> split ! 1 \<in> set languages)" "cs' = cs"
  | (accepted) "languages = [] \<or> split ! 1 \<in> set languages"
      "cs' = cs(split ! 0 \<mapsto>
              (get_concept cs (split ! 0))
                \<lparr>c_id := Some (split ! 0),
                 c_preferred := (if split ! 2 = u ''P'' then Some (split ! 3)
                                 else c_preferred (get_concept cs (split ! 0))),
                 c_lui := append_to (c_lui (get_concept cs (split ! 0))) (split ! 3),
                 c_sui := append_to (c_sui (get_concept cs (split ! 0))) (split ! 5)\<rparr>)"
    by blast
  then show "if languages = [] \<or> split ! 1 \<in> set languages
           then cs' \<noteq> cs
             \<and> c_lui (get_concept cs' (split ! 0))
                 = append_to (c_lui (get_concept cs (split ! 0))) (split ! 3)
             \<and> c_sui (get_concept cs' (split ! 0))
                 = append_to (c_sui (get_concept cs (split ! 0))) (split ! 5)
           else cs' = cs"
  proof cases
    case skipped
    then show ?thesis by simp
  next
    case accepted
    have "cs' \<noteq> cs"
      by (rule concept_update_changes [OF accepted(2)]) simp
    with accepted show ?thesis by simp
  qed
next
  assume "terms_row languages ts split = Inr ts'"
  from terms_row_Inr [OF this] consider
    (skipped) "\<not> (languages = [] \<or> split ! 1 \<in> set languages)" "ts' = ts"
  | (accepted) "languages = [] \<or> split ! 1 \<in> set languages"
      "ts' = ts(split ! 3 \<mapsto>
              (get_term ts (split ! 3))
                \<lparr>t_id := Some (split ! 3),
                 t_cui := append_to (t_cui (get_term ts (split ! 3))) (split ! 0),
                 t_sui := append_to (t_sui (get_term ts (split ! 3))) (split ! 5)\<rparr>)"
    by blast
  then show "if languages = [] \<or> split ! 1 \<in> set languages
           then ts' \<noteq> ts
             \<and> t_cui (get_term ts' (split ! 3))
                 = append_to (t_cui (get_term ts (split ! 3))) (split ! 0)
             \<and> t_sui (get_term ts' (split ! 3))
                 = append_to (t_sui (get_term ts (split ! 3))) (split ! 5)
           else ts' = ts"
  proof cases
    case skipped
    then show ?thesis by simp
  next
    case accepted
    have "ts' \<noteq> ts"
      by (rule term_update_changes [OF accepted(2)]) simp
    with accepted show ?thesis by simp
  qed
next
  assume "strings_row isword lower languages ss split = Inr ss'"
  from strings_row_Inr [OF this] consider
    (skipped) "\<not> (languages = [] \<or> split ! 1 \<in> set languages)" "ss' = ss"
  | (accepted) string where "languages = [] \<or> split ! 1 \<in> set languages"
      "ss' = ss(split ! 5 \<mapsto>
              (get_string ss (split ! 5))
                \<lparr>s_id := Some (split ! 5), s_string := Some string,
                 s_lower := Some (lowerwords_of isword lower string),
                 s_lang := Some (split ! 1),
                 s_numwords := Some (length (split_ws string)),
                 s_numwordslower := Some (length (split_ws (lowerwords_of isword lower string))),
                 s_lui := Some (split ! 3),
                 s_cui := append_to (s_cui (get_string ss (split ! 5))) (split ! 0)\<rparr>)"
    by blast
  then show "if languages = [] \<or> split ! 1 \<in> set languages
           then ss' \<noteq> ss
             \<and> s_cui (get_string ss' (split ! 5))
                 = append_to (s_cui (get_string ss (split ! 5))) (split ! 0)
           else ss' = ss"
  proof cases
    case skipped
    then show ?thesis by simp
  next
    case accepted
    have "ss' \<noteq> ss"
      by (rule string_update_changes [OF accepted(2)]) simp
    with accepted show ?thesis by simp
  qed
qed

lemma utf8_encode_ascii: "\<forall>c \<in> set s. c < 128 \<Longrightarrow> utf8_encode s = Inr s"
  by (induction s) (simp_all add: utf8_encode_char_def)

lemma length_guard_ascii:
  "\<forall>c \<in> set s. c < 128 \<Longrightarrow> length s < 1000 \<Longrightarrow> length_guard s = Inr s"
  by (simp add: length_guard_def utf8_encode_ascii)

lemma length_guard_hello: "length_guard (u ''Hello, World!'') = Inr (u ''Hello, World!'')"
  by (rule length_guard_ascii) (simp_all add: u_def)

lemma length_guard_bonjour: "length_guard (u ''Bonjour'') = Inr (u ''Bonjour'')"
  by (rule length_guard_ascii) (simp_all add: u_def)

lemma language_filter_rows_example:
  "(\<exists>cs' ts' ss'.
      concepts_row [u ''ENG''] Map.empty
        (split_record (u ''C001|ENG|P|L001|PF|S001|Y|A0001||||SRC|PT|D001|Hello, World!|0|N||'' @ [10]))
        = Inr cs' \<and> cs' \<noteq> Map.empty
    \<and> terms_row [u ''ENG''] Map.empty
        (split_record (u ''C001|ENG|P|L001|PF|S001|Y|A0001||||SRC|PT|D001|Hello, World!|0|N||'' @ [10]))
        = Inr ts' \<and> ts' \<noteq> Map.empty
    \<and> strings_row ascii_isword ascii_lower [u ''ENG''] Map.empty
        (split_record (u ''C001|ENG|P|L001|PF|S001|Y|A0001||||SRC|PT|D001|Hello, World!|0|N||'' @ [10]))
        = Inr ss' \<and> ss' \<noteq> Map.empty)
   \<and> concepts_row [u ''ENG''] Map.empty
        (split_record (u ''C004|FRE|P|L003|PF|S003|Y|A0003||||SRC|PT|D002|Bonjour|0|N||'' @ [10]))
        = Inr Map.empty
   \<and> terms_row [u ''ENG''] Map.empty
        (split_record (u ''C004|FRE|P|L003|PF|S003|Y|A0003||||SRC|PT|D002|Bonjour|0|N||'' @ [10]))
        = Inr Map.empty
   \<and> strings_row ascii_isword ascii_lower [u ''ENG''] Map.empty
        (split_record (u ''C004|FRE|P|L003|PF|S003|Y|A0003||||SRC|PT|D002|Bonjour|0|N||'' @ [10]))
        = Inr Map.empty
   \<and> concepts_row [u ''ENG''] Map.empty
        [u ''C001'', u ''eng'', u ''P'', u ''L001'', u ''PF'', u ''S001''] = Inr Map.empty"
proof -
  let ?row = "split_record
    (u ''C001|ENG|P|L001|PF|S001|Y|A0001||||SRC|PT|D001|Hello, World!|0|N||'' @ [10])"
  have "\<exists>cs'. concepts_row [u ''ENG''] Map.empty ?row = Inr cs'"
    by (simp add: concepts_row_def rejected_def example_conso_rows Let_def)
  then obtain cs' where c: "concepts_row [u ''ENG''] Map.empty ?row = Inr cs'" ..
  have "\<exists>ts'. terms_row [u ''ENG''] Map.empty ?row = Inr ts'"
    by (simp add: terms_row_def rejected_def example_conso_rows Let_def)
  then obtain ts' where t: "terms_row [u ''ENG''] Map.empty ?row = Inr ts'" ..
  have "\<exists>ss'. strings_row ascii_isword ascii_lower [u ''ENG''] Map.empty ?row = Inr ss'"
    by (simp add: strings_row_def rejected_def example_conso_rows Let_def length_guard_hello)
  then obtain ss' where s: "strings_row ascii_isword ascii_lower [u ''ENG''] Map.empty ?row = Inr ss'" ..
  from language_filter_rows
    [of "[u ''ENG'']" Map.empty ?row cs' Map.empty ts' ascii_isword ascii_lower Map.empty ss']
    c t s
  have "cs' \<noteq> Map.empty \<and> ts' \<noteq> Map.empty \<and> ss' \<noteq> Map.empty"
    by (simp add: example_conso_rows)
  with c t s have first: "\<exists>cs' ts' ss'.
      concepts_row [u ''ENG''] Map.empty ?row = Inr cs' \<and> cs' \<noteq> Map.empty
    \<and> terms_row [u ''ENG''] Map.empty ?row = Inr ts' \<and> ts' \<noteq> Map.empty
    \<and> strings_row ascii_isword ascii_lower [u ''ENG''] Map.empty ?row = Inr ss'
    \<and> ss' \<noteq> Map.empty"
    by blast
  have rest: "concepts_row [u ''ENG''] Map.empty
        (split_record (u ''C004|FRE|P|L003|PF|S003|Y|A0003||||SRC|PT|D002|Bonjour|0|N||'' @ [10]))
        = Inr Map.empty"
    "terms_row [u ''ENG''] Map.empty
        (split_record (u ''C004|FRE|P|L003|PF|S003|Y|A0003||||SRC|PT|D002|Bonjour|0|N||'' @ [10]))
        = Inr Map.empty"
    "strings_row ascii_isword ascii_lower [u ''ENG''] Map.empty
        (split_record (u ''C004|FRE|P|L003|PF|S003|Y|A0003||||SRC|PT|D002|Bonjour|0|N||'' @ [10]))
        = Inr Map.empty"
    "concepts_row [u ''ENG''] Map.empty
        [u ''C001'', u ''eng'', u ''P'', u ''L001'', u ''PF'', u ''S001''] = Inr Map.empty"
    by (simp_all add: concepts_row_def terms_row_def strings_row_def rejected_def
        example_conso_rows length_guard_bonjour)
  from first rest show ?thesis
    by (intro conjI)
qed

section \<open>The UTF-8 codec\<close>

lemma radix64_2:
  fixes q r :: nat
  assumes "r < 64"
  shows "(q * 64 + r) div 64 = q" and "(q * 64 + r) mod 64 = r"
  using assms by simp_all

lemma radix64_3:
  fixes q r1 r2 :: nat
  assumes "r1 < 64" and "r2 < 64"
  shows "(q * 4096 + r1 * 64 + r2) div 4096 = q"
    and "(q * 4096 + r1 * 64 + r2) div 64 mod 64 = r1"
    and "(q * 4096 + r1 * 64 + r2) mod 64 = r2"
proof -
  have e: "q * 4096 + r1 * 64 + r2 = (q * 64 + r1) * 64 + r2"
    by simp
  have d: "(q * 4096 + r1 * 64 + r2) div 64 = q * 64 + r1"
    unfolding e using assms(2) by (rule radix64_2(1))
  show "(q * 4096 + r1 * 64 + r2) mod 64 = r2"
    unfolding e using assms(2) by (rule radix64_2(2))
  show "(q * 4096 + r1 * 64 + r2) div 64 mod 64 = r1"
    unfolding d using assms(1) by (rule radix64_2(2))
  have "(q * 4096 + r1 * 64 + r2) div 4096 = (q * 4096 + r1 * 64 + r2) div 64 div 64"
    by (simp add: div_mult2_eq)
  also have "\<dots> = q"
    unfolding d using assms(1) by (rule radix64_2(1))
  finally show "(q * 4096 + r1 * 64 + r2) div 4096 = q" .
qed

lemma radix64_4:
  fixes q r1 r2 r3 :: nat
  assumes "r1 < 64" and "r2 < 64" and "r3 < 64"
  shows "(q * 262144 + r1 * 4096 + r2 * 64 + r3) div 262144 = q"
    and "(q * 262144 + r1 * 4096 + r2 * 64 + r3) div 4096 mod 64 = r1"
    and "(q * 262144 + r1 * 4096 + r2 * 64 + r3) div 64 mod 64 = r2"
    and "(q * 262144 + r1 * 4096 + r2 * 64 + r3) mod 64 = r3"
proof -
  have e: "q * 262144 + r1 * 4096 + r2 * 64 + r3 = (q * 4096 + r1 * 64 + r2) * 64 + r3"
    by simp
  have d: "(q * 262144 + r1 * 4096 + r2 * 64 + r3) div 64 = q * 4096 + r1 * 64 + r2"
    unfolding e using assms(3) by (rule radix64_2(1))
  show "(q * 262144 + r1 * 4096 + r2 * 64 + r3) mod 64 = r3"
    unfolding e using assms(3) by (rule radix64_2(2))
  show "(q * 262144 + r1 * 4096 + r2 * 64 + r3) div 64 mod 64 = r2"
    unfolding d using assms(1,2) by (rule radix64_3(3))
  have "(q * 262144 + r1 * 4096 + r2 * 64 + r3) div 4096
          = (q * 262144 + r1 * 4096 + r2 * 64 + r3) div 64 div 64"
    by (simp add: div_mult2_eq)
  then show "(q * 262144 + r1 * 4096 + r2 * 64 + r3) div 4096 mod 64 = r1"
    unfolding d using radix64_3(2) [OF assms(1,2), of q] by simp
  have "(q * 262144 + r1 * 4096 + r2 * 64 + r3) div 262144
          = (q * 262144 + r1 * 4096 + r2 * 64 + r3) div 64 div 4096"
    by (simp add: div_mult2_eq)
  also have "\<dots> = q"
    unfolding d using assms(1,2) by (rule radix64_3(1))
  finally show "(q * 262144 + r1 * 4096 + r2 * 64 + r3) div 262144 = q" .
qed

lemma encode_two_bytes:
  assumes "0xC2 \<le> b0" and "b0 < 0xE0" and "is_cont b1"
  shows "utf8_encode_char ((b0 - 0xC0) * 64 + (b1 - 0x80)) = Inr [b0, b1]"
proof -
  define q r where "q = b0 - 0xC0" and "r = b1 - 0x80"
  have b: "b0 = 0xC0 + q" "b1 = 0x80 + r" and q: "2 \<le> q" "q < 32" and r: "r < 64"
    using assms by (auto simp: q_def r_def is_cont_def)
  have lo: "\<not> q * 64 + r < 0x80" and hi: "q * 64 + r < 0x800"
    using q r by simp_all
  show ?thesis
    unfolding q_def [symmetric] r_def [symmetric]
    using lo hi r by (simp add: utf8_encode_char_def radix64_2 [OF r] b)
qed

lemma encode_three_bytes:
  assumes "0xE0 \<le> b0" and "b0 < 0xF0" and "is_cont b1" and "is_cont b2"
    and "0x800 \<le> (b0 - 0xE0) * 4096 + (b1 - 0x80) * 64 + (b2 - 0x80)"
    and "\<not> (0xD800 \<le> (b0 - 0xE0) * 4096 + (b1 - 0x80) * 64 + (b2 - 0x80)
           \<and> (b0 - 0xE0) * 4096 + (b1 - 0x80) * 64 + (b2 - 0x80) < 0xE000)"
  shows "utf8_encode_char ((b0 - 0xE0) * 4096 + (b1 - 0x80) * 64 + (b2 - 0x80))
           = Inr [b0, b1, b2]"
proof -
  define q r1 r2 where "q = b0 - 0xE0" and "r1 = b1 - 0x80" and "r2 = b2 - 0x80"
  have b: "b0 = 0xE0 + q" "b1 = 0x80 + r1" "b2 = 0x80 + r2"
    and q: "q < 16" and r: "r1 < 64" "r2 < 64"
    using assms(1-4) by (auto simp: q_def r1_def r2_def is_cont_def)
  have lo: "\<not> q * 4096 + r1 * 64 + r2 < 0x80" "\<not> q * 4096 + r1 * 64 + r2 < 0x800"
    using assms(5) by (simp_all add: q_def r1_def r2_def)
  have hi: "q * 4096 + r1 * 64 + r2 < 0x10000"
    using q r by simp
  have sur: "\<not> (0xD800 \<le> q * 4096 + r1 * 64 + r2 \<and> q * 4096 + r1 * 64 + r2 < 0xE000)"
    using assms(6) by (simp add: q_def r1_def r2_def)
  show ?thesis
    unfolding q_def [symmetric] r1_def [symmetric] r2_def [symmetric]
    using lo hi sur r by (simp add: utf8_encode_char_def radix64_3 [OF r] b)
qed

lemma encode_four_bytes:
  assumes "0xF0 \<le> b0" and "b0 < 0xF5" and "is_cont b1" and "is_cont b2" and "is_cont b3"
    and "0x10000 \<le> (b0 - 0xF0) * 262144 + (b1 - 0x80) * 4096 + (b2 - 0x80) * 64
                       + (b3 - 0x80)"
    and "(b0 - 0xF0) * 262144 + (b1 - 0x80) * 4096 + (b2 - 0x80) * 64 + (b3 - 0x80)
           < 0x110000"
  shows "utf8_encode_char
           ((b0 - 0xF0) * 262144 + (b1 - 0x80) * 4096 + (b2 - 0x80) * 64 + (b3 - 0x80))
           = Inr [b0, b1, b2, b3]"
proof -
  define q r1 r2 r3 where "q = b0 - 0xF0" and "r1 = b1 - 0x80" and "r2 = b2 - 0x80"
    and "r3 = b3 - 0x80"
  have b: "b0 = 0xF0 + q" "b1 = 0x80 + r1" "b2 = 0x80 + r2" "b3 = 0x80 + r3"
    and r: "r1 < 64" "r2 < 64" "r3 < 64"
    using assms(1-5) by (auto simp: q_def r1_def r2_def r3_def is_cont_def)
  have lo: "\<not> q * 262144 + r1 * 4096 + r2 * 64 + r3 < 0x80"
    "\<not> q * 262144 + r1 * 4096 + r2 * 64 + r3 < 0x800"
    "\<not> q * 262144 + r1 * 4096 + r2 * 64 + r3 < 0x10000"
    using assms(6) by (simp_all add: q_def r1_def r2_def r3_def)
  have hi: "q * 262144 + r1 * 4096 + r2 * 64 + r3 < 0x110000"
    using assms(7) by (simp add: q_def r1_def r2_def r3_def)
  show ?thesis
    unfolding q_def [symmetric] r1_def [symmetric] r2_def [symmetric] r3_def [symmetric]
    using lo hi r by (simp add: utf8_encode_char_def radix64_4 [OF r] b)
qed


lemma utf8_decode_Cons_Inr:
  assumes "utf8_decode (b0 # bs) = Inr s"
  obtains
    (one) cs where "b0 < 0x80" "utf8_decode bs = Inr cs" "s = b0 # cs"
  | (two) b1 r cs where "\<not> b0 < 0x80" "0xC2 \<le> b0 \<and> b0 < 0xE0" "bs = b1 # r" "is_cont b1"
      "utf8_decode r = Inr cs" "s = ((b0 - 0xC0) * 64 + (b1 - 0x80)) # cs"
  | (three) b1 b2 r cs where "\<not> b0 < 0x80" "\<not> (0xC2 \<le> b0 \<and> b0 < 0xE0)"
      "0xE0 \<le> b0 \<and> b0 < 0xF0" "bs = b1 # b2 # r" "is_cont b1" "is_cont b2"
      "0x800 \<le> (b0 - 0xE0) * 4096 + (b1 - 0x80) * 64 + (b2 - 0x80)"
      "\<not> (0xD800 \<le> (b0 - 0xE0) * 4096 + (b1 - 0x80) * 64 + (b2 - 0x80)
           \<and> (b0 - 0xE0) * 4096 + (b1 - 0x80) * 64 + (b2 - 0x80) < 0xE000)"
      "utf8_decode r = Inr cs"
      "s = ((b0 - 0xE0) * 4096 + (b1 - 0x80) * 64 + (b2 - 0x80)) # cs"
  | (four) b1 b2 b3 r cs where "\<not> b0 < 0x80" "\<not> (0xC2 \<le> b0 \<and> b0 < 0xE0)"
      "\<not> (0xE0 \<le> b0 \<and> b0 < 0xF0)" "0xF0 \<le> b0 \<and> b0 < 0xF5" "bs = b1 # b2 # b3 # r"
      "is_cont b1" "is_cont b2" "is_cont b3"
      "0x10000 \<le> (b0 - 0xF0) * 262144 + (b1 - 0x80) * 4096 + (b2 - 0x80) * 64 + (b3 - 0x80)"
      "(b0 - 0xF0) * 262144 + (b1 - 0x80) * 4096 + (b2 - 0x80) * 64 + (b3 - 0x80) < 0x110000"
      "utf8_decode r = Inr cs"
      "s = ((b0 - 0xF0) * 262144 + (b1 - 0x80) * 4096 + (b2 - 0x80) * 64 + (b3 - 0x80)) # cs"
proof (cases "b0 < 0x80")
  case True
  with assms one show ?thesis
    by (auto simp: ebind_eq_Inr)
next
  case n1: False
  show ?thesis
  proof (cases "0xC2 \<le> b0 \<and> b0 < 0xE0")
    case True
    with n1 assms two show ?thesis
      by (auto simp: ebind_eq_Inr split: list.splits if_splits)
  next
    case n2: False
    show ?thesis
    proof (cases "0xE0 \<le> b0 \<and> b0 < 0xF0")
      case True
      with n1 n2 assms three show ?thesis
        by (simp add: ebind_eq_Inr Let_def split: list.splits if_splits) blast
    next
      case n3: False
      show ?thesis
      proof (cases "0xF0 \<le> b0 \<and> b0 < 0xF5")
        case True
        with n1 n2 n3 assms four show ?thesis
          by (simp add: ebind_eq_Inr Let_def split: list.splits if_splits) blast
      next
        case False
        with n1 n2 n3 assms show ?thesis by (auto split: if_splits)
      qed
    qed
  qed
qed

lemma utf8_decode_encode:
  "utf8_decode bs = Inr s \<Longrightarrow> utf8_encode s = Inr bs"
proof (induction bs arbitrary: s rule: utf8_decode.induct)
  case 1
  then show ?case by simp
next
  case (2 b0 bs)
  from "2.prems" show ?case
  proof (cases rule: utf8_decode_Cons_Inr)
    case (one cs)
    with "2.IH"(1) have "utf8_encode cs = Inr bs" by blast
    with one show ?thesis by (simp add: utf8_encode_char_def)
  next
    case (two b1 r cs)
    with "2.IH"(2) have "utf8_encode cs = Inr r" by blast
    with two encode_two_bytes [of b0 b1] show ?thesis by simp
  next
    case (three b1 b2 r cs)
    with "2.IH"(3) have "utf8_encode cs = Inr r" by blast
    with three encode_three_bytes [of b0 b1 b2] show ?thesis by simp
  next
    case (four b1 b2 b3 r cs)
    with "2.IH"(4) have "utf8_encode cs = Inr r" by blast
    with four encode_four_bytes [of b0 b1 b2 b3] show ?thesis by simp
  qed
qed

lemma utf8_decode_append:
  "utf8_decode xs = Inr a \<Longrightarrow>
     utf8_decode (xs @ ys) = ebind (utf8_decode ys) (\<lambda>b. Inr (a @ b))"
proof (induction xs arbitrary: a rule: utf8_decode.induct)
  case 1
  then show ?case by (cases "utf8_decode ys") auto
next
  case (2 b0 bs)
  from "2.prems" show ?case
  proof (cases rule: utf8_decode_Cons_Inr)
    case (one cs)
    with "2.IH"(1) have "utf8_decode (bs @ ys) = ebind (utf8_decode ys) (\<lambda>b. Inr (cs @ b))"
      by blast
    with one show ?thesis by (cases "utf8_decode ys") simp_all
  next
    case (two b1 r cs)
    with "2.IH"(2) have "utf8_decode (r @ ys) = ebind (utf8_decode ys) (\<lambda>b. Inr (cs @ b))"
      by blast
    with two show ?thesis by (cases "utf8_decode ys") simp_all
  next
    case (three b1 b2 r cs)
    with "2.IH"(3) have "utf8_decode (r @ ys) = ebind (utf8_decode ys) (\<lambda>b. Inr (cs @ b))"
      by blast
    with three show ?thesis by (cases "utf8_decode ys") (simp_all add: Let_def)
  next
    case (four b1 b2 b3 r cs)
    with "2.IH"(4) have "utf8_decode (r @ ys) = ebind (utf8_decode ys) (\<lambda>b. Inr (cs @ b))"
      by blast
    with four show ?thesis by (cases "utf8_decode ys") (simp_all add: Let_def)
  qed
qed

lemma digits64_2:
  fixes c :: nat
  obtains q r where "c = q * 64 + r" "r < 64"
proof
  show "c = c div 64 * 64 + c mod 64" by simp
  show "c mod 64 < 64" by simp
qed

lemma digits64_3:
  fixes c :: nat
  obtains q r1 r2 where "c = q * 4096 + r1 * 64 + r2" "r1 < 64" "r2 < 64"
proof -
  obtain a r2 where a: "c = a * 64 + r2" "r2 < 64" by (rule digits64_2)
  obtain q r1 where q: "a = q * 64 + r1" "r1 < 64" by (rule digits64_2)
  from a q have "c = q * 4096 + r1 * 64 + r2" by simp
  with a q that show ?thesis by blast
qed

lemma digits64_4:
  fixes c :: nat
  obtains q r1 r2 r3 where "c = q * 262144 + r1 * 4096 + r2 * 64 + r3"
    "r1 < 64" "r2 < 64" "r3 < 64"
proof -
  obtain a r3 where a: "c = a * 64 + r3" "r3 < 64" by (rule digits64_2)
  obtain q r1 r2 where q: "a = q * 4096 + r1 * 64 + r2" "r1 < 64" "r2 < 64"
    by (rule digits64_3)
  from a q have "c = q * 262144 + r1 * 4096 + r2 * 64 + r3" by simp
  with a q that show ?thesis by blast
qed

lemma utf8_decode_after_char:
  assumes "utf8_encode_char c = Inr b"
  shows "utf8_decode (b @ rest) = ebind (utf8_decode rest) (\<lambda>cs. Inr (c # cs))"
proof -
  consider (one) "c < 0x80" | (two) "0x80 \<le> c" "c < 0x800"
    | (three) "0x800 \<le> c" "c < 0x10000" | (four) "0x10000 \<le> c" "c < 0x110000"
    | (none) "0x110000 \<le> c"
    by linarith
  then show ?thesis
  proof cases
    case one
    with assms have "b = [c]" by (simp add: utf8_encode_char_def)
    with one show ?thesis by simp
  next
    case two
    obtain q r where c: "c = q * 64 + r" and r: "r < 64" by (rule digits64_2)
    from two c r have q: "2 \<le> q" "q < 32" by simp_all
    from q r have "utf8_encode_char c = Inr [0xC0 + q, 0x80 + r]"
      unfolding c using encode_two_bytes [of "0xC0 + q" "0x80 + r"]
      by (simp add: is_cont_def)
    with assms have "b = [0xC0 + q, 0x80 + r]" by simp
    with q r show ?thesis by (simp add: is_cont_def c)
  next
    case three
    obtain q r1 r2 where c: "c = q * 4096 + r1 * 64 + r2" and r: "r1 < 64" "r2 < 64"
      by (rule digits64_3)
    from three c r have q: "q < 16" by simp
    from assms three have sur: "\<not> (0xD800 \<le> c \<and> c < 0xE000)"
      by (auto simp: utf8_encode_char_def split: if_splits)
    from q r three sur have "utf8_encode_char c = Inr [0xE0 + q, 0x80 + r1, 0x80 + r2]"
      unfolding c using encode_three_bytes [of "0xE0 + q" "0x80 + r1" "0x80 + r2"]
      by (simp add: is_cont_def)
    with assms have "b = [0xE0 + q, 0x80 + r1, 0x80 + r2]" by simp
    with q r three sur show ?thesis by (simp add: is_cont_def c Let_def)
  next
    case four
    obtain q r1 r2 r3 where c: "c = q * 262144 + r1 * 4096 + r2 * 64 + r3"
      and r: "r1 < 64" "r2 < 64" "r3 < 64"
      by (rule digits64_4)
    from four c r have q: "q < 5" by simp
    from q r four have
      "utf8_encode_char c = Inr [0xF0 + q, 0x80 + r1, 0x80 + r2, 0x80 + r3]"
      unfolding c
      using encode_four_bytes [of "0xF0 + q" "0x80 + r1" "0x80 + r2" "0x80 + r3"]
      by (simp add: is_cont_def)
    with assms have "b = [0xF0 + q, 0x80 + r1, 0x80 + r2, 0x80 + r3]" by simp
    with q r four show ?thesis by (simp add: is_cont_def c Let_def)
  next
    case none
    with assms show ?thesis by (simp add: utf8_encode_char_def)
  qed
qed

lemma utf8_encode_decode:
  "utf8_encode s = Inr bs \<Longrightarrow> utf8_decode bs = Inr s"
proof (induction s arbitrary: bs)
  case Nil
  then show ?case by simp
next
  case (Cons c cs)
  from Cons.prems obtain b bs' where b: "utf8_encode_char c = Inr b"
    and bs': "utf8_encode cs = Inr bs'" and bs: "bs = b @ bs'"
    by (auto simp: ebind_eq_Inr)
  from Cons.IH [OF bs'] utf8_decode_after_char [OF b, of bs'] bs show ?case
    by simp
qed

lemma utf8_encode_append:
  "utf8_encode (xs @ ys) = ebind (utf8_encode xs) (\<lambda>a. ebind (utf8_encode ys) (\<lambda>b. Inr (a @ b)))"
proof (induction xs)
  case Nil
  show ?case by (cases "utf8_encode ys") simp_all
next
  case (Cons x xs)
  show ?case
    by (cases "utf8_encode_char x"; cases "utf8_encode xs"; cases "utf8_encode ys")
       (simp_all add: Cons.IH)
qed

section \<open>The length guard\<close>

lemma ebind_eq_Inl: "(ebind m f = Inl e) = (m = Inl e \<or> (\<exists>x. m = Inr x \<and> f x = Inl e))"
  by (cases m) auto

lemma utf8_decode_error: "utf8_decode bs = Inl e \<Longrightarrow> e = UnicodeDecodeError"
proof (induction bs arbitrary: e rule: utf8_decode.induct)
  case 1
  then show ?case by simp
next
  case (2 b0 bs)
  show ?case
  proof (cases "b0 < 0x80")
    case True
    with "2.prems" "2.IH"(1) show ?thesis
      by (auto simp: ebind_eq_Inl)
  next
    case n1: False
    show ?thesis
    proof (cases "0xC2 \<le> b0 \<and> b0 < 0xE0")
      case True
      with n1 "2.prems" "2.IH"(2) show ?thesis
        by (auto simp: ebind_eq_Inl split: list.splits if_splits)
    next
      case n2: False
      show ?thesis
      proof (cases "0xE0 \<le> b0 \<and> b0 < 0xF0")
        case True
        with n1 n2 "2.prems" "2.IH"(3) show ?thesis
          by (auto simp: ebind_eq_Inl Let_def split: list.splits if_splits)
      next
        case n3: False
        show ?thesis
        proof (cases "0xF0 \<le> b0 \<and> b0 < 0xF5")
          case True
          with n1 n2 n3 "2.prems" "2.IH"(4) show ?thesis
            by (auto simp: ebind_eq_Inl Let_def split: list.splits if_splits)
        next
          case False
          with n1 n2 n3 "2.prems" show ?thesis by (auto split: if_splits)
        qed
      qed
    qed
  qed
qed

lemma truncated_prefix:
  assumes "utf8_encode raw = Inr bs" and "utf8_decode (take n bs) = Inr s"
  shows "prefix s raw" and "utf8_encode s = Inr (take n bs)"
proof -
  show "utf8_encode s = Inr (take n bs)"
    using assms(2) by (rule utf8_decode_encode)
  have "utf8_decode (take n bs @ drop n bs) = Inr raw"
    using assms(1) by (simp add: utf8_encode_decode)
  with utf8_decode_append [OF assms(2), of "drop n bs"]
  obtain rest where "raw = s @ rest"
    by (auto simp: ebind_eq_Inr)
  then show "prefix s raw" by simp
qed

lemma length_guard_Inr:
  assumes "length_guard raw = Inr s"
  shows "\<exists>bs. utf8_encode s = Inr bs \<and> length bs \<le> 1000 \<and> utf8_decode bs = Inr s
           \<and> prefix s raw"
proof -
  from assms obtain bs0 where e: "utf8_encode raw = Inr bs0"
    and g: "(if length bs0 \<ge> 1000 then utf8_decode (take 1000 bs0) else Inr raw) = Inr s"
    by (auto simp: length_guard_def ebind_eq_Inr)
  show ?thesis
  proof (cases "length bs0 \<ge> 1000")
    case True
    with g have d: "utf8_decode (take 1000 bs0) = Inr s" by simp
    from truncated_prefix [OF e d] d show ?thesis by auto
  next
    case False
    with g have "s = raw" by simp
    with e False utf8_encode_decode [OF e] show ?thesis by auto
  qed
qed

text \<open>
  What the guard does for an encoding of at least 1000 bytes: it decodes the first 1000
  bytes. Either they are the encoding of a prefix of the string, which is returned, or
  they are the encoding of no text at all and the decoder raises.
\<close>

lemma length_guard_at_byte_1000:
  assumes "utf8_encode string = Inr byte_string" and "1000 \<le> length byte_string"
  shows "(\<exists>s. length_guard string = Inr s \<and> prefix s string
              \<and> utf8_encode s = Inr (take 1000 byte_string))
       \<or> (length_guard string = Inl UnicodeDecodeError
            \<and> (\<forall>s. utf8_encode s \<noteq> Inr (take 1000 byte_string)))"
proof -
  have g: "length_guard string = utf8_decode (take 1000 byte_string)"
    using assms by (simp add: length_guard_def)
  show ?thesis
  proof (cases "utf8_decode (take 1000 byte_string)")
    case (Inr s)
    with truncated_prefix [OF assms(1) Inr] g show ?thesis by simp
  next
    case (Inl e)
    then have "e = UnicodeDecodeError" by (rule utf8_decode_error)
    moreover have "utf8_encode s \<noteq> Inr (take 1000 byte_string)" for s
    proof
      assume "utf8_encode s = Inr (take 1000 byte_string)"
      then have "utf8_decode (take 1000 byte_string) = Inr s"
        by (rule utf8_encode_decode)
      with Inl show False by simp
    qed
    ultimately show ?thesis using g Inl by simp
  qed
qed

lemma utf8_encode_a: "utf8_encode (replicate n 97) = Inr (replicate n 97)"
  by (rule utf8_encode_ascii) simp

lemma utf8_decode_a: "utf8_decode (replicate n 97) = Inr (replicate n 97)"
  by (rule utf8_encode_decode) (rule utf8_encode_a)

lemma utf8_encode_long_e_acute:
  "utf8_encode (replicate 998 97 @ [233, 98]) = Inr (replicate 998 97 @ [195, 169, 98])"
  by (simp add: utf8_encode_append utf8_encode_a utf8_encode_char_def)

lemma utf8_encode_long_cut:
  "utf8_encode (replicate 999 97 @ [233]) = Inr (replicate 999 97 @ [195, 169])"
  by (simp add: utf8_encode_append utf8_encode_a utf8_encode_char_def)

lemma length_guard_long_e_acute:
  "length_guard (replicate 998 97 @ [233, 98]) = Inr (replicate 998 97 @ [233])"
  by (simp add: length_guard_def utf8_encode_long_e_acute
      utf8_decode_append [OF utf8_decode_a] is_cont_def)

lemma length_guard_long_cut:
  "length_guard (replicate 999 97 @ [233]) = Inl UnicodeDecodeError"
  by (simp add: length_guard_def utf8_encode_long_cut
      utf8_decode_append [OF utf8_decode_a] is_cont_def)

lemma length_guard_at_byte_1000_example:
  "utf8_encode (replicate 998 97 @ [233, 98]) = Inr (replicate 998 97 @ [195, 169, 98])
   \<and> 1000 \<le> length (replicate 998 97 @ [195, 169, 98 :: nat])
   \<and> length_guard (replicate 998 97 @ [233, 98]) = Inr (replicate 998 97 @ [233])
   \<and> prefix (replicate 998 97 @ [233]) (replicate 998 97 @ [233, 98 :: nat])
   \<and> utf8_encode (replicate 998 97 @ [233])
        = Inr (take 1000 (replicate 998 97 @ [195, 169, 98]))
   \<and> utf8_encode (replicate 999 97 @ [233]) = Inr (replicate 999 97 @ [195, 169])
   \<and> length_guard (replicate 999 97 @ [233]) = Inl UnicodeDecodeError"
proof -
  have l: "1000 \<le> length (replicate 998 97 @ [195, 169, 98 :: nat])"
    by simp
  from length_guard_at_byte_1000 [OF utf8_encode_long_e_acute l]
  have "prefix (replicate 998 97 @ [233]) (replicate 998 97 @ [233, 98 :: nat])
     \<and> utf8_encode (replicate 998 97 @ [233])
        = Inr (take 1000 (replicate 998 97 @ [195, 169, 98]))"
    by (simp add: length_guard_long_e_acute)
  with l utf8_encode_long_e_acute length_guard_long_e_acute utf8_encode_long_cut
    length_guard_long_cut
  show ?thesis by blast
qed

section \<open>The stored surface strings\<close>

lemma strings_row_stored:
  assumes "strings_row isword lower languages ss (split_record line) = Inr ss'"
    and "line \<in> set file"
    and "\<forall>sui r. ss sui = Some r \<longrightarrow>
           (\<exists>s bs. s_string r = Some s \<and> utf8_encode s = Inr bs \<and> length bs \<le> 1000
              \<and> utf8_decode bs = Inr s
              \<and> (\<exists>l \<in> set file. 14 < length (split_record l)
                    \<and> prefix s (split_record l ! 14)))"
  shows "\<forall>sui r. ss' sui = Some r \<longrightarrow>
           (\<exists>s bs. s_string r = Some s \<and> utf8_encode s = Inr bs \<and> length bs \<le> 1000
              \<and> utf8_decode bs = Inr s
              \<and> (\<exists>l \<in> set file. 14 < length (split_record l)
                    \<and> prefix s (split_record l ! 14)))"
proof -
  from strings_row_Inr [OF assms(1)] obtain string where
    len: "15 \<le> length (split_record line)"
    and g: "length_guard (split_record line ! 14) = Inr string"
    and d: "(\<not> (languages = [] \<or> split_record line ! 1 \<in> set languages) \<and> ss' = ss)
    \<or> ((languages = [] \<or> split_record line ! 1 \<in> set languages)
        \<and> ss' = ss(split_record line ! 5 \<mapsto>
              (get_string ss (split_record line ! 5))
                \<lparr>s_id := Some (split_record line ! 5), s_string := Some string,
                 s_lower := Some (lowerwords_of isword lower string),
                 s_lang := Some (split_record line ! 1),
                 s_numwords := Some (length (split_ws string)),
                 s_numwordslower := Some (length (split_ws (lowerwords_of isword lower string))),
                 s_lui := Some (split_record line ! 3),
                 s_cui := append_to (s_cui (get_string ss (split_record line ! 5)))
                            (split_record line ! 0)\<rparr>))"
    by blast
  from d consider (same) "ss' = ss"
    | (upd) "ss' = ss(split_record line ! 5 \<mapsto>
              (get_string ss (split_record line ! 5))
                \<lparr>s_id := Some (split_record line ! 5), s_string := Some string,
                 s_lower := Some (lowerwords_of isword lower string),
                 s_lang := Some (split_record line ! 1),
                 s_numwords := Some (length (split_ws string)),
                 s_numwordslower := Some (length (split_ws (lowerwords_of isword lower string))),
                 s_lui := Some (split_record line ! 3),
                 s_cui := append_to (s_cui (get_string ss (split_record line ! 5)))
                            (split_record line ! 0)\<rparr>)"
    by blast
  then have c: "ss' = ss \<or> (\<exists>r'. ss' = ss(split_record line ! 5 \<mapsto> r')
                              \<and> s_string r' = Some string)"
  proof cases
    case same
    then show ?thesis by simp
  next
    case upd
    have "s_string ((get_string ss (split_record line ! 5))
                \<lparr>s_id := Some (split_record line ! 5), s_string := Some string,
                 s_lower := Some (lowerwords_of isword lower string),
                 s_lang := Some (split_record line ! 1),
                 s_numwords := Some (length (split_ws string)),
                 s_numwordslower := Some (length (split_ws (lowerwords_of isword lower string))),
                 s_lui := Some (split_record line ! 3),
                 s_cui := append_to (s_cui (get_string ss (split_record line ! 5)))
                            (split_record line ! 0)\<rparr>) = Some string"
      by simp
    with upd show ?thesis by blast
  qed
  from length_guard_Inr [OF g] obtain bs where
    bs: "utf8_encode string = Inr bs" "length bs \<le> 1000" "utf8_decode bs = Inr string"
      "prefix string (split_record line ! 14)"
    by blast
  from len have "14 < length (split_record line)" by simp
  with assms(2) bs(4) have "\<exists>l \<in> set file. 14 < length (split_record l)
      \<and> prefix string (split_record l ! 14)"
    by blast
  with bs have new: "\<exists>s bs. Some string = Some s \<and> utf8_encode s = Inr bs
      \<and> length bs \<le> 1000 \<and> utf8_decode bs = Inr s
      \<and> (\<exists>l \<in> set file. 14 < length (split_record l) \<and> prefix s (split_record l ! 14))"
    by blast
  from c show ?thesis
  proof
    assume "ss' = ss"
    with assms(3) show ?thesis by simp
  next
    assume "\<exists>r'. ss' = ss(split_record line ! 5 \<mapsto> r') \<and> s_string r' = Some string"
    then obtain r' where r': "ss' = ss(split_record line ! 5 \<mapsto> r')"
      "s_string r' = Some string" by blast
    show ?thesis
    proof (intro allI impI)
      fix sui r
      assume a: "ss' sui = Some r"
      show "\<exists>s bs. s_string r = Some s \<and> utf8_encode s = Inr bs \<and> length bs \<le> 1000
              \<and> utf8_decode bs = Inr s
              \<and> (\<exists>l \<in> set file. 14 < length (split_record l)
                    \<and> prefix s (split_record l ! 14))"
      proof (cases "sui = split_record line ! 5")
        case True
        with a r' have "r = r'" by simp
        with r'(2) new show ?thesis by simp
      next
        case False
        with a r' have "ss sui = Some r" by simp
        with assms(3) show ?thesis by blast
      qed
    qed
  qed
qed

text \<open>
  C3: every record of the string set that \<open>_create_strings\<close> returns has a \<open>"string"\<close>
  whose UTF-8 encoding exists and has at most 1000 bytes, which decodes back to the same
  text, and which is a prefix, in whole characters, of the surface string (column 14) of
  a row of the file: no character has been split.
\<close>

theorem stored_strings_within_bound:
  assumes "create_strings isword lower path languages = Inr strings"
    and "strings sui = Some r"
  shows "\<exists>s bs. s_string r = Some s \<and> utf8_encode s = Inr bs \<and> length bs \<le> 1000
              \<and> utf8_decode bs = Inr s
              \<and> (\<exists>line \<in> set (MRCONSO path). 14 < length (split_record line)
                    \<and> prefix s (split_record line ! 14))"
proof -
  from assms(1) have
    f: "efold (\<lambda>ss record. strings_row isword lower languages ss (split_record record))
         (MRCONSO path) Map.empty = Inr strings"
    by (auto simp: create_strings_def ebind_eq_Inr)
  have "\<forall>sui r. strings sui = Some r \<longrightarrow>
           (\<exists>s bs. s_string r = Some s \<and> utf8_encode s = Inr bs \<and> length bs \<le> 1000
              \<and> utf8_decode bs = Inr s
              \<and> (\<exists>l \<in> set (MRCONSO path). 14 < length (split_record l)
                    \<and> prefix s (split_record l ! 14)))"
  proof (rule efold_invariant [OF f])
    show "\<forall>sui r. Map.empty sui = Some r \<longrightarrow>
           (\<exists>s bs. s_string r = Some s \<and> utf8_encode s = Inr bs \<and> length bs \<le> 1000
              \<and> utf8_decode bs = Inr s
              \<and> (\<exists>l \<in> set (MRCONSO path). 14 < length (split_record l)
                    \<and> prefix s (split_record l ! 14)))"
      by simp
  next
    fix a x b
    assume "x \<in> set (MRCONSO path)"
      and "\<forall>sui r. a sui = Some r \<longrightarrow>
           (\<exists>s bs. s_string r = Some s \<and> utf8_encode s = Inr bs \<and> length bs \<le> 1000
              \<and> utf8_decode bs = Inr s
              \<and> (\<exists>l \<in> set (MRCONSO path). 14 < length (split_record l)
                    \<and> prefix s (split_record l ! 14)))"
      and "strings_row isword lower languages a (split_record x) = Inr b"
    then show "\<forall>sui r. b sui = Some r \<longrightarrow>
           (\<exists>s bs. s_string r = Some s \<and> utf8_encode s = Inr bs \<and> length bs \<le> 1000
              \<and> utf8_decode bs = Inr s
              \<and> (\<exists>l \<in> set (MRCONSO path). 14 < length (split_record l)
                    \<and> prefix s (split_record l ! 14)))"
      by (intro strings_row_stored [of isword lower languages a x b "MRCONSO path"])
  qed
  with assms(2) show ?thesis by blast
qed

lemma example_lowerwords:
  "lowerwords_of ascii_isword ascii_lower (u ''Hello, World!'') = u ''hello world''"
  "split_ws (u ''Hello, World!'') = [u ''Hello,'', u ''World!'']"
  "split_ws (u ''hello world'') = [u ''hello'', u ''world'']"
  by (simp_all add: lowerwords_of_def sub_punct_def ascii_isword_def ascii_lower_def
      split_ws_def isspace_def u_def)

lemma length_guard_hello_lower: "length_guard (u ''hello world'') = Inr (u ''hello world'')"
  by (rule length_guard_ascii) (simp_all add: u_def)

lemma example_strings_ENG:
  "\<exists>strings. create_strings ascii_isword ascii_lower example_dir [u ''ENG''] = Inr strings
     \<and> strings (u ''S001'') =
         Some \<lparr>s_id = Some (u ''S001''), s_string = Some (u ''Hello, World!''),
               s_lower = Some (u ''hello world''), s_lang = Some (u ''ENG''),
               s_numwords = Some 2, s_numwordslower = Some 2, s_lui = Some (u ''L001''),
               s_cui = Some [u ''C001'']\<rparr>
     \<and> strings (u ''S003'') = None"
  by (simp add: create_strings_def example_dir_def example_conso_rows strings_row_def
      rejected_def length_guard_hello length_guard_bonjour length_guard_hello_lower
      example_lowerwords get_string_def new_string_def append_to_def Let_def)

theorem stored_strings_within_bound_witness:
  "\<exists>strings r.
     create_strings ascii_isword ascii_lower example_dir [u ''ENG''] = Inr strings
     \<and> strings (u ''S001'') = Some r \<and> s_string r = Some (u ''Hello, World!'')
     \<and> (\<exists>bs. utf8_encode (u ''Hello, World!'') = Inr bs \<and> length bs \<le> 1000
            \<and> utf8_decode bs = Inr (u ''Hello, World!''))"
proof -
  from example_strings_ENG obtain strings where
    r: "create_strings ascii_isword ascii_lower example_dir [u ''ENG''] = Inr strings"
    and k: "strings (u ''S001'') =
         Some \<lparr>s_id = Some (u ''S001''), s_string = Some (u ''Hello, World!''),
               s_lower = Some (u ''hello world''), s_lang = Some (u ''ENG''),
               s_numwords = Some 2, s_numwordslower = Some 2, s_lui = Some (u ''L001''),
               s_cui = Some [u ''C001'']\<rparr>"
    by blast
  from stored_strings_within_bound [OF r k]
  have "\<exists>bs. utf8_encode (u ''Hello, World!'') = Inr bs \<and> length bs \<le> 1000
            \<and> utf8_decode bs = Inr (u ''Hello, World!'')"
    by auto
  with r k show ?thesis
    by simp
qed

section \<open>The lexical representation of a string\<close>

lemma isspace_32 [simp]: "isspace 32"
  by (simp add: isspace_def)

lemma split_ws_acc_word:
  "\<forall>c \<in> set w. \<not> isspace c \<Longrightarrow> split_ws_acc acc (w @ rest) = split_ws_acc (acc @ w) rest"
  by (induction w arbitrary: acc) simp_all

lemma split_ws_join:
  assumes "\<forall>w \<in> set ws. w \<noteq> [] \<and> (\<forall>c \<in> set w. \<not> isspace c)"
  shows "split_ws (join [32] ws) = ws"
  using assms
proof (induction "[32::nat]" ws rule: join.induct)
  case 1
  show ?case by (simp add: split_ws_def)
next
  case (2 w)
  then have "split_ws_acc [] (w @ []) = split_ws_acc ([] @ w) []"
    by (intro split_ws_acc_word) simp
  with 2 show ?case by (simp add: split_ws_def)
next
  case (3 w v vs)
  from "3.prems" have w: "w \<noteq> []" "\<forall>c \<in> set w. \<not> isspace c" by simp_all
  from "3.prems" have "split_ws (join [32] (v # vs)) = v # vs"
    by (intro "3.hyps") simp
  then have r: "split_ws_acc [] (join [32] (v # vs)) = v # vs"
    by (simp add: split_ws_def)
  have "split_ws_acc [] (w @ 32 # join [32] (v # vs))
          = split_ws_acc ([] @ w) (32 # join [32] (v # vs))"
    using w(2) by (rule split_ws_acc_word)
  with w r show ?case by (simp add: split_ws_def)
qed

lemma join_split_ws_join:
  assumes "\<forall>w \<in> set ws. w \<noteq> [] \<and> (\<forall>c \<in> set w. \<not> isspace c)"
  shows "join [32] (split_ws (join [32] ws)) = join [32] ws"
  using assms by (simp add: split_ws_join)

lemma sub_punct_join:
  assumes "\<forall>w \<in> set ws. \<forall>c \<in> set w. isword c"
  shows "sub_punct isword (join [32] ws) = join [32] ws"
  using assms
  by (induction "[32::nat]" ws rule: join.induct)
     (simp_all add: sub_punct_def map_idI)

lemma lower_join:
  fixes lower :: "ustr \<Rightarrow> ustr"
  assumes "\<forall>a b. lower (a @ 32 # b) = lower a @ 32 # lower b" and "lower [] = []"
  shows "lower (join [32] ws) = join [32] (map lower ws)"
  by (induction "[32::nat]" ws rule: join.induct) (simp_all add: assms)

lemma lower_spaces:
  fixes lower :: "ustr \<Rightarrow> ustr"
  assumes "\<forall>a b. lower (a @ 32 # b) = lower a @ 32 # lower b" and "lower [] = []"
  shows "lower (replicate n 32) = replicate n 32"
proof (induction n)
  case 0
  show ?case by (simp add: assms(2))
next
  case (Suc n)
  have "lower ([] @ 32 # replicate n 32) = lower [] @ 32 # lower (replicate n 32)"
    using assms(1) by blast
  with Suc assms(2) show ?case by simp
qed

lemma split_ws_spaces: "split_ws_acc [] (replicate n 32) = []"
  by (induction n) simp_all

lemma sub_punct_nonword:
  "\<forall>c \<in> set s. \<not> isword c \<Longrightarrow> sub_punct isword s = replicate (length s) 32"
  by (induction s) (simp_all add: sub_punct_def)

lemma u_space: "u '' '' = [32]"
  by (simp add: u_def)

text \<open>
  The string \<open>" a"\<close> is made of word characters and single spaces only; its
  normalised form is \<open>"a"\<close>, which is not the string lowercased: \<open>split\<close> and
  \<open>join\<close> drop a leading or trailing space.
\<close>

theorem normalisation_trims_counterexample:
  "words_and_single_spaces ascii_isword (u '' a'')
   \<and> lowerwords_of ascii_isword ascii_lower (u '' a'') = u ''a''
   \<and> ascii_lower (u '' a'') = u '' a''
   \<and> lowerwords_of ascii_isword ascii_lower (u '' a'') \<noteq> ascii_lower (u '' a'')"
  by (simp add: words_and_single_spaces_def lowerwords_of_def sub_punct_def ascii_isword_def
      ascii_lower_def split_ws_def isspace_def u_def)

text \<open>
  C8 (as the code has it): let \<open>str.lower\<close> map a text piecewise across a space and
  map a non-empty run of word characters to a non-empty text without whitespace, as the
  interpreter's tables do. Then for every string that is a sequence of non-empty runs of
  word characters joined by single spaces (so without a leading or trailing space), the
  normalised form is that string lowercased; and for every string of non-word characters
  only, the normalised form is the empty string and its count of words
  (\<open>numwordslower\<close>) is 0.
\<close>

theorem normalisation_of_spaced_words:
  fixes lower :: "ustr \<Rightarrow> ustr"
  assumes "\<forall>a b. lower (a @ 32 # b) = lower a @ 32 # lower b"
    and "lower [] = []"
    and "\<forall>w. w \<noteq> [] \<and> (\<forall>c \<in> set w. isword c)
           \<longrightarrow> lower w \<noteq> [] \<and> (\<forall>c \<in> set (lower w). \<not> isspace c)"
  shows "(\<forall>ws. (\<forall>w \<in> set ws. w \<noteq> [] \<and> (\<forall>c \<in> set w. isword c))
            \<longrightarrow> lowerwords_of isword lower (join (u '' '') ws) = lower (join (u '' '') ws))
    \<and> (\<forall>s. (\<forall>c \<in> set s. \<not> isword c)
            \<longrightarrow> lowerwords_of isword lower s = []
               \<and> length (split_ws (lowerwords_of isword lower s)) = 0)"
proof (intro conjI allI impI)
  fix ws
  assume ws: "\<forall>w \<in> set ws. w \<noteq> [] \<and> (\<forall>c \<in> set w. isword c)"
  then have p: "sub_punct isword (join [32] ws) = join [32] ws"
    by (intro sub_punct_join) simp
  have l: "lower (join [32] ws) = join [32] (map lower ws)"
    using assms(1,2) by (rule lower_join)
  have "\<forall>w \<in> set (map lower ws). w \<noteq> [] \<and> (\<forall>c \<in> set w. \<not> isspace c)"
    using ws assms(3) by auto
  then have "join [32] (split_ws (join [32] (map lower ws))) = join [32] (map lower ws)"
    by (rule join_split_ws_join)
  with p l show "lowerwords_of isword lower (join (u '' '') ws) = lower (join (u '' '') ws)"
    by (simp add: lowerwords_of_def u_space)
next
  fix s
  assume "\<forall>c \<in> set s. \<not> isword c"
  then have "sub_punct isword s = replicate (length s) 32"
    by (rule sub_punct_nonword)
  moreover have "lower (replicate (length s) 32) = replicate (length s) 32"
    using assms(1,2) by (rule lower_spaces)
  ultimately have e: "lowerwords_of isword lower s = []"
    by (simp add: lowerwords_of_def split_ws_def split_ws_spaces)
  then show "lowerwords_of isword lower s = []" .
  from e show "length (split_ws (lowerwords_of isword lower s)) = 0"
    by (simp add: split_ws_def)
qed

lemma ascii_lower_tables:
  "\<forall>a b. ascii_lower (a @ 32 # b) = ascii_lower a @ 32 # ascii_lower b"
  "ascii_lower [] = []"
  "\<forall>w. w \<noteq> [] \<and> (\<forall>c \<in> set w. ascii_isword c)
        \<longrightarrow> ascii_lower w \<noteq> [] \<and> (\<forall>c \<in> set (ascii_lower w). \<not> isspace c)"
  by (auto simp: ascii_lower_def ascii_isword_def isspace_def)

theorem normalisation_of_spaced_words_witness:
  "lowerwords_of ascii_isword ascii_lower (u ''Hello World'') = ascii_lower (u ''Hello World'')
   \<and> ascii_lower (u ''Hello World'') = u ''hello world''
   \<and> lowerwords_of ascii_isword ascii_lower (u ''?!., -'') = []
   \<and> length (split_ws (lowerwords_of ascii_isword ascii_lower (u ''?!., -''))) = 0"
proof -
  note t = normalisation_of_spaced_words [OF ascii_lower_tables]
  have j: "join (u '' '') [u ''Hello'', u ''World''] = u ''Hello World''"
    by (simp add: u_def)
  have "\<forall>w \<in> set [u ''Hello'', u ''World'']. w \<noteq> [] \<and> (\<forall>c \<in> set w. ascii_isword c)"
    by (simp add: u_def ascii_isword_def)
  with t have "lowerwords_of ascii_isword ascii_lower (join (u '' '') [u ''Hello'', u ''World''])
      = ascii_lower (join (u '' '') [u ''Hello'', u ''World''])"
    by blast
  then have a: "lowerwords_of ascii_isword ascii_lower (u ''Hello World'')
      = ascii_lower (u ''Hello World'')"
    by (simp only: j)
  have b: "ascii_lower (u ''Hello World'') = u ''hello world''"
    by (simp add: ascii_lower_def u_def)
  have "\<forall>c \<in> set (u ''?!., -''). \<not> ascii_isword c"
    by (simp add: u_def ascii_isword_def)
  with t have "lowerwords_of ascii_isword ascii_lower (u ''?!., -'') = []
     \<and> length (split_ws (lowerwords_of ascii_isword ascii_lower (u ''?!., -''))) = 0"
    by blast
  with a b show ?thesis by blast
qed

section \<open>What the MRCONSO passes return\<close>

lemma the_list_append_to [simp]: "the_list (append_to l x) = the_list l @ [x]"
  by (simp add: the_list_def append_to_def)

lemma accepted_rows_Nil [simp]: "accepted_rows languages [] = []"
  by (simp add: accepted_rows_def)

lemma accepted_rows_Cons:
  "accepted_rows languages (x # xs) =
     (if languages = [] \<or> split_record x ! 1 \<in> set languages
      then split_record x # accepted_rows languages xs else accepted_rows languages xs)"
  by (simp add: accepted_rows_def)

lemma column_of_Nil [simp]: "column_of k key v [] = []"
  by (simp add: column_of_def)

lemma column_of_Cons:
  "column_of k key v (s # rows) =
     (if s ! k = key then s ! v # column_of k key v rows else column_of k key v rows)"
  by (simp add: column_of_def)

lemma terms_pass_lists:
  assumes "efold (\<lambda>ts r. terms_row languages ts (split_record r)) fl ts = Inr ts'"
  shows "the_list (t_cui (get_term ts' k))
           = the_list (t_cui (get_term ts k)) @ column_of 3 k 0 (accepted_rows languages fl)
    \<and> the_list (t_sui (get_term ts' k))
           = the_list (t_sui (get_term ts k)) @ column_of 3 k 5 (accepted_rows languages fl)
    \<and> (ts' k = None) = (ts k = None \<and> column_of 3 k 0 (accepted_rows languages fl) = [])"
  using assms
proof (induction fl arbitrary: ts)
  case Nil
  then show ?case by simp
next
  case (Cons x xs)
  from Cons.prems obtain ts1 where
    r: "terms_row languages ts (split_record x) = Inr ts1"
    and f: "efold (\<lambda>ts r. terms_row languages ts (split_record r)) xs ts1 = Inr ts'"
    by (auto split: sum.splits)
  note ih = Cons.IH [OF f]
  from terms_row_Inr [OF r] consider
    (skipped) "\<not> (languages = [] \<or> split_record x ! 1 \<in> set languages)" "ts1 = ts"
  | (accepted) "languages = [] \<or> split_record x ! 1 \<in> set languages"
      "ts1 = ts(split_record x ! 3 \<mapsto>
              (get_term ts (split_record x ! 3))
                \<lparr>t_id := Some (split_record x ! 3),
                 t_cui := append_to (t_cui (get_term ts (split_record x ! 3))) (split_record x ! 0),
                 t_sui := append_to (t_sui (get_term ts (split_record x ! 3))) (split_record x ! 5)\<rparr>)"
    by blast
  then show ?case
  proof cases
    case skipped
    with ih show ?thesis by (simp add: accepted_rows_Cons)
  next
    case accepted
    show ?thesis
    proof (cases "split_record x ! 3 = k")
      case True
      with ih accepted show ?thesis
        by (simp add: accepted_rows_Cons column_of_Cons get_term_def)
    next
      case False
      with ih accepted show ?thesis
        by (simp add: accepted_rows_Cons column_of_Cons get_term_def)
    qed
  qed
qed

lemma strings_pass_lists:
  assumes "efold (\<lambda>ss r. strings_row isword lower languages ss (split_record r)) fl ss
             = Inr ss'"
  shows "the_list (s_cui (get_string ss' k))
           = the_list (s_cui (get_string ss k)) @ column_of 5 k 0 (accepted_rows languages fl)
    \<and> (ss' k = None) = (ss k = None \<and> column_of 5 k 0 (accepted_rows languages fl) = [])"
  using assms
proof (induction fl arbitrary: ss)
  case Nil
  then show ?case by simp
next
  case (Cons x xs)
  from Cons.prems obtain ss1 where
    r: "strings_row isword lower languages ss (split_record x) = Inr ss1"
    and f: "efold (\<lambda>ss r. strings_row isword lower languages ss (split_record r)) xs ss1
              = Inr ss'"
    by (auto split: sum.splits)
  note ih = Cons.IH [OF f]
  from strings_row_Inr [OF r] consider
    (skipped) "\<not> (languages = [] \<or> split_record x ! 1 \<in> set languages)" "ss1 = ss"
  | (accepted) r' where "languages = [] \<or> split_record x ! 1 \<in> set languages"
      "ss1 = ss(split_record x ! 5 \<mapsto> r')"
      "s_cui r' = append_to (s_cui (get_string ss (split_record x ! 5))) (split_record x ! 0)"
    by fastforce
  then show ?case
  proof cases
    case skipped
    with ih show ?thesis by (simp add: accepted_rows_Cons)
  next
    case accepted
    show ?thesis
    proof (cases "split_record x ! 5 = k")
      case True
      with ih accepted show ?thesis
        by (simp add: accepted_rows_Cons column_of_Cons get_string_def)
    next
      case False
      with ih accepted show ?thesis
        by (simp add: accepted_rows_Cons column_of_Cons get_string_def)
    qed
  qed
qed

lemma concepts_pass_lists:
  assumes "efold (\<lambda>cs r. concepts_row languages cs (split_record r)) fl cs = Inr cs'"
  shows "the_list (c_lui (get_concept cs' k))
           = the_list (c_lui (get_concept cs k)) @ column_of 0 k 3 (accepted_rows languages fl)
    \<and> the_list (c_sui (get_concept cs' k))
           = the_list (c_sui (get_concept cs k)) @ column_of 0 k 5 (accepted_rows languages fl)
    \<and> (cs' k = None) = (cs k = None \<and> column_of 0 k 3 (accepted_rows languages fl) = [])"
  using assms
proof (induction fl arbitrary: cs)
  case Nil
  then show ?case by simp
next
  case (Cons x xs)
  from Cons.prems obtain cs1 where
    r: "concepts_row languages cs (split_record x) = Inr cs1"
    and f: "efold (\<lambda>cs r. concepts_row languages cs (split_record r)) xs cs1 = Inr cs'"
    by (auto split: sum.splits)
  note ih = Cons.IH [OF f]
  from concepts_row_Inr [OF r] consider
    (skipped) "\<not> (languages = [] \<or> split_record x ! 1 \<in> set languages)" "cs1 = cs"
  | (accepted) r' where "languages = [] \<or> split_record x ! 1 \<in> set languages"
      "cs1 = cs(split_record x ! 0 \<mapsto> r')"
      "c_lui r' = append_to (c_lui (get_concept cs (split_record x ! 0))) (split_record x ! 3)"
      "c_sui r' = append_to (c_sui (get_concept cs (split_record x ! 0))) (split_record x ! 5)"
    by fastforce
  then show ?case
  proof cases
    case skipped
    with ih show ?thesis by (simp add: accepted_rows_Cons)
  next
    case accepted
    show ?thesis
    proof (cases "split_record x ! 0 = k")
      case True
      with ih accepted show ?thesis
        by (simp add: accepted_rows_Cons column_of_Cons get_concept_def)
    next
      case False
      with ih accepted show ?thesis
        by (simp add: accepted_rows_Cons column_of_Cons get_concept_def)
    qed
  qed
qed

lemma mrdef_row_atoms:
  assumes "mrdef_row classify isolangs preprocessor cs split = Inr cs'"
  shows "c_lui (get_concept cs' k) = c_lui (get_concept cs k)
       \<and> c_sui (get_concept cs' k) = c_sui (get_concept cs k)"
  using mrdef_row_Inr [OF assms]
  by (auto simp: get_concept_def split: if_splits)

lemma mrrel_row_atoms:
  assumes "mrrel_row cs split = Inr cs'"
  shows "c_lui (get_concept cs' k) = c_lui (get_concept cs k)
       \<and> c_sui (get_concept cs' k) = c_sui (get_concept cs k)"
  using mrrel_row_Inr [OF assms]
  by (auto simp: get_concept_def)

lemma mrsty_row_atoms:
  assumes "mrsty_row cs split = Inr cs'"
  shows "c_lui (get_concept cs' k) = c_lui (get_concept cs k)
       \<and> c_sui (get_concept cs' k) = c_sui (get_concept cs k)"
  using mrsty_row_Inr [OF assms]
  by (auto simp: get_concept_def)

lemma enrichment_keeps_atoms:
  assumes "(if pd then process_mrdef classify path c0 languages preprocessor else Inr c0)
             = Inr c1"
    and "(if pr then process_mrrel path c1 else Inr c1) = Inr c2"
    and "(if ps then process_mrsty path c2 else Inr c2) = Inr c3"
  shows "c_lui (get_concept c3 k) = c_lui (get_concept c0 k)
       \<and> c_sui (get_concept c3 k) = c_sui (get_concept c0 k)"
proof -
  have a: "c_lui (get_concept c1 k) = c_lui (get_concept c0 k)
       \<and> c_sui (get_concept c1 k) = c_sui (get_concept c0 k)"
  proof (cases pd)
    case True
    with assms(1) obtain isolangs where
      "efold (\<lambda>cs r. mrdef_row classify isolangs preprocessor cs (split_record r))
         (MRDEF path) c0 = Inr c1"
      by (auto dest: process_mrdef_Inr)
    then show ?thesis
      by (rule efold_invariant) (auto dest: mrdef_row_atoms [where k = k])
  next
    case False
    with assms(1) show ?thesis by simp
  qed
  have b: "c_lui (get_concept c2 k) = c_lui (get_concept c0 k)
       \<and> c_sui (get_concept c2 k) = c_sui (get_concept c0 k)"
  proof (cases pr)
    case True
    with assms(2) have
      "efold (\<lambda>cs r. mrrel_row cs (split_record r)) (MRREL path) c1 = Inr c2"
      by (auto dest: process_mrrel_Inr)
    then show ?thesis
      by (rule efold_invariant) (use a in \<open>auto dest: mrrel_row_atoms [where k = k]\<close>)
  next
    case False
    with assms(2) a show ?thesis by simp
  qed
  show ?thesis
  proof (cases ps)
    case True
    with assms(3) have
      "efold (\<lambda>cs r. mrsty_row cs (split_record r)) (MRSTY path) c2 = Inr c3"
      by (auto dest: process_mrsty_Inr)
    then show ?thesis
      by (rule efold_invariant) (use b in \<open>auto dest: mrsty_row_atoms [where k = k]\<close>)
  next
    case False
    with assms(3) b show ?thesis by simp
  qed
qed

lemma accepted_rows_all: "accepted_rows [] fl = map split_record fl"
  by (simp add: accepted_rows_def)

text \<open>
  C2: in what the concept, term and string passes return, the lists of every aggregate
  hold exactly the identifiers of the MRCONSO rows that the filter accepts, one entry for
  each such row and in file order, and nothing from any other row: a row is accepted when
  the language set is empty, or when the set is non-empty and column 1 is a member of it
  by equality of strings. A term or string aggregate exists exactly when an accepted row
  has its key. With the empty set the accepted rows are all the rows of the file. The
  last three parts state the same for one iteration of each loop.
\<close>

theorem language_filter_exact:
  "(create_concepts classify path process_definitions process_relations
        process_semantic_types languages preprocessor = Inr concepts
      \<longrightarrow> the_list (c_lui (get_concept concepts key))
            = column_of 0 key 3 (accepted_rows languages (MRCONSO path))
        \<and> the_list (c_sui (get_concept concepts key))
            = column_of 0 key 5 (accepted_rows languages (MRCONSO path)))
   \<and> (create_terms path languages = Inr terms
      \<longrightarrow> the_list (t_cui (get_term terms key))
            = column_of 3 key 0 (accepted_rows languages (MRCONSO path))
        \<and> the_list (t_sui (get_term terms key))
            = column_of 3 key 5 (accepted_rows languages (MRCONSO path))
        \<and> (terms key = None)
            = (column_of 3 key 0 (accepted_rows languages (MRCONSO path)) = []))
   \<and> (create_strings isword lower path languages = Inr strings
      \<longrightarrow> the_list (s_cui (get_string strings key))
            = column_of 5 key 0 (accepted_rows languages (MRCONSO path))
        \<and> (strings key = None)
            = (column_of 5 key 0 (accepted_rows languages (MRCONSO path)) = []))
   \<and> accepted_rows [] (MRCONSO path) = map split_record (MRCONSO path)
   \<and> (concepts_row languages cs split = Inr cs'
      \<longrightarrow> (if languages = [] \<or> split ! 1 \<in> set languages
           then cs' \<noteq> cs
             \<and> c_lui (get_concept cs' (split ! 0))
                 = append_to (c_lui (get_concept cs (split ! 0))) (split ! 3)
             \<and> c_sui (get_concept cs' (split ! 0))
                 = append_to (c_sui (get_concept cs (split ! 0))) (split ! 5)
           else cs' = cs))
   \<and> (terms_row languages ts split = Inr ts'
      \<longrightarrow> (if languages = [] \<or> split ! 1 \<in> set languages
           then ts' \<noteq> ts
             \<and> t_cui (get_term ts' (split ! 3))
                 = append_to (t_cui (get_term ts (split ! 3))) (split ! 0)
             \<and> t_sui (get_term ts' (split ! 3))
                 = append_to (t_sui (get_term ts (split ! 3))) (split ! 5)
           else ts' = ts))
   \<and> (strings_row isword lower languages ss split = Inr ss'
      \<longrightarrow> (if languages = [] \<or> split ! 1 \<in> set languages
           then ss' \<noteq> ss
             \<and> s_cui (get_string ss' (split ! 5))
                 = append_to (s_cui (get_string ss (split ! 5))) (split ! 0)
           else ss' = ss))"
proof -
  have c: "the_list (c_lui (get_concept concepts key))
            = column_of 0 key 3 (accepted_rows languages (MRCONSO path))
        \<and> the_list (c_sui (get_concept concepts key))
            = column_of 0 key 5 (accepted_rows languages (MRCONSO path))"
    if r: "create_concepts classify path process_definitions process_relations
        process_semantic_types languages preprocessor = Inr concepts"
  proof -
    from r obtain c0 c1 c2 where
      s0: "efold (\<lambda>cs r. concepts_row languages cs (split_record r)) (MRCONSO path) Map.empty
             = Inr c0"
      and s1: "(if process_definitions
                then process_mrdef classify path c0 languages preprocessor else Inr c0) = Inr c1"
      and s2: "(if process_relations then process_mrrel path c1 else Inr c1) = Inr c2"
      and s3: "(if process_semantic_types then process_mrsty path c2 else Inr c2)
                 = Inr concepts"
      by (rule create_concepts_Inr)
    from concepts_pass_lists [OF s0, of key] enrichment_keeps_atoms [OF s1 s2 s3, of key]
    show ?thesis
      by (simp add: get_concept_def new_concept_def the_list_def)
  qed
  have t: "the_list (t_cui (get_term terms key))
            = column_of 3 key 0 (accepted_rows languages (MRCONSO path))
        \<and> the_list (t_sui (get_term terms key))
            = column_of 3 key 5 (accepted_rows languages (MRCONSO path))
        \<and> (terms key = None)
            = (column_of 3 key 0 (accepted_rows languages (MRCONSO path)) = [])"
    if r: "create_terms path languages = Inr terms"
  proof -
    from r have "efold (\<lambda>ts r. terms_row languages ts (split_record r)) (MRCONSO path)
        Map.empty = Inr terms"
      by (auto simp: create_terms_def ebind_eq_Inr)
    from terms_pass_lists [OF this, of key] show ?thesis
      by (simp add: get_term_def new_term_def the_list_def)
  qed
  have s: "the_list (s_cui (get_string strings key))
            = column_of 5 key 0 (accepted_rows languages (MRCONSO path))
        \<and> (strings key = None)
            = (column_of 5 key 0 (accepted_rows languages (MRCONSO path)) = [])"
    if r: "create_strings isword lower path languages = Inr strings"
  proof -
    from r have "efold (\<lambda>ss r. strings_row isword lower languages ss (split_record r))
        (MRCONSO path) Map.empty = Inr strings"
      by (auto simp: create_strings_def ebind_eq_Inr)
    from strings_pass_lists [OF this, of key] show ?thesis
      by (simp add: get_string_def new_string_def the_list_def)
  qed
  from c t s accepted_rows_all [of "MRCONSO path"]
    language_filter_rows [of languages cs split cs' ts ts' isword lower ss ss']
  show ?thesis by blast
qed

lemma example_terms_ENG:
  "\<exists>terms. create_terms example_dir [u ''ENG''] = Inr terms"
  by (simp add: create_terms_def example_dir_def example_conso_rows terms_row_def rejected_def
      Let_def)

lemma example_accepted_ENG:
  "accepted_rows [u ''ENG''] (MRCONSO example_dir) =
     [[u ''C001'', u ''ENG'', u ''P'', u ''L001'', u ''PF'', u ''S001'', u ''Y'', u ''A0001'',
        [], [], [], u ''SRC'', u ''PT'', u ''D001'', u ''Hello, World!'', u ''0'', u ''N'', [], []],
      [u ''C001'', u ''ENG'', u ''S'', u ''L002'', u ''PF'', u ''S002'', u ''Y'', u ''A0002'',
        [], [], [], u ''SRC'', u ''PT'', u ''D001'', u ''hello world'', u ''0'', u ''N'', [], []]]"
  by (simp add: accepted_rows_def example_dir_def example_conso_rows)

theorem language_filter_exact_witness:
  "\<exists>concepts terms strings.
     create_concepts (\<lambda>d. u ''en'') example_dir True True True [u ''ENG''] None = Inr concepts
     \<and> the_list (c_lui (get_concept concepts (u ''C001''))) = [u ''L001'', u ''L002'']
     \<and> the_list (c_lui (get_concept concepts (u ''C004''))) = []
     \<and> create_terms example_dir [u ''ENG''] = Inr terms
     \<and> the_list (t_cui (get_term terms (u ''L001''))) = [u ''C001'']
     \<and> terms (u ''L001'') \<noteq> None \<and> terms (u ''L003'') = None
     \<and> create_strings ascii_isword ascii_lower example_dir [u ''ENG''] = Inr strings
     \<and> the_list (s_cui (get_string strings (u ''S002''))) = [u ''C001'']
     \<and> strings (u ''S003'') = None"
proof -
  from example_concepts_ENG obtain concepts where
    c: "create_concepts (\<lambda>d. u ''en'') example_dir True True True [u ''ENG''] None
          = Inr concepts"
    by blast
  from example_terms_ENG obtain terms where
    t: "create_terms example_dir [u ''ENG''] = Inr terms"
    by blast
  from example_strings_ENG obtain strings where
    s: "create_strings ascii_isword ascii_lower example_dir [u ''ENG''] = Inr strings"
    by blast
  from language_filter_exact
    [where classify = "\<lambda>d. u ''en''" and path = example_dir and process_definitions = True
       and process_relations = True and process_semantic_types = True
       and languages = "[u ''ENG'']" and preprocessor = None and concepts = concepts
       and terms = terms and strings = strings and isword = ascii_isword
       and lower = ascii_lower and key = "u ''C001''"] c
  have c1: "the_list (c_lui (get_concept concepts (u ''C001''))) = [u ''L001'', u ''L002'']"
    by (simp add: example_accepted_ENG column_of_def)
  from language_filter_exact
    [where classify = "\<lambda>d. u ''en''" and path = example_dir and process_definitions = True
       and process_relations = True and process_semantic_types = True
       and languages = "[u ''ENG'']" and preprocessor = None and concepts = concepts
       and terms = terms and strings = strings and isword = ascii_isword
       and lower = ascii_lower and key = "u ''C004''"] c
  have c4: "the_list (c_lui (get_concept concepts (u ''C004''))) = []"
    by (simp add: example_accepted_ENG column_of_def)
  from language_filter_exact
    [where path = example_dir and languages = "[u ''ENG'']" and terms = terms
       and key = "u ''L001''"] t
  have t1: "the_list (t_cui (get_term terms (u ''L001''))) = [u ''C001'']
      \<and> terms (u ''L001'') \<noteq> None"
    by (simp add: example_accepted_ENG column_of_def)
  from language_filter_exact
    [where path = example_dir and languages = "[u ''ENG'']" and terms = terms
       and key = "u ''L003''"] t
  have t3: "terms (u ''L003'') = None"
    by (simp add: example_accepted_ENG column_of_def)
  from language_filter_exact
    [where path = example_dir and languages = "[u ''ENG'']" and strings = strings
       and isword = ascii_isword and lower = ascii_lower and key = "u ''S002''"] s
  have s2: "the_list (s_cui (get_string strings (u ''S002''))) = [u ''C001'']"
    by (simp add: example_accepted_ENG column_of_def)
  from language_filter_exact
    [where path = example_dir and languages = "[u ''ENG'']" and strings = strings
       and isword = ascii_isword and lower = ascii_lower and key = "u ''S003''"] s
  have s3: "strings (u ''S003'') = None"
    by (simp add: example_accepted_ENG column_of_def)
  from c t s c1 c4 t1 t3 s2 s3 show ?thesis
    by blast
qed

section \<open>The guard where an earlier cut point is safe\<close>

lemma split_on_not_Nil [simp]: "split_on sep s \<noteq> []"
  by (induction s) (auto split: list.splits)

lemma split_on_word:
  "sep \<notin> set w \<Longrightarrow>
     split_on sep (w @ rest) = (w @ hd (split_on sep rest)) # tl (split_on sep rest)"
proof (induction w)
  case Nil
  then show ?case by simp
next
  case (Cons c w)
  then show ?case by (cases "split_on sep rest") auto
qed

lemma isspace_10: "isspace 10"
  by (simp add: isspace_def)

lemma strip_line:
  "\<not> isspace c \<Longrightarrow> \<not> isspace d \<Longrightarrow> strip (c # t @ [d, 10]) = c # t @ [d]"
  by (simp add: strip_def isspace_10)

lemma long_row_split:
  "split_record (u ''C001|ENG|P|L001|PF|S001|Y|A0001||||SRC|PT|D001|'' @ replicate 999 97
                   @ 233 # u ''|0|N||'' @ [10])
     = [u ''C001'', u ''ENG'', u ''P'', u ''L001'', u ''PF'', u ''S001'', u ''Y'', u ''A0001'',
        [], [], [], u ''SRC'', u ''PT'', u ''D001'', replicate 999 97 @ [233], u ''0'', u ''N'',
        [], []]"
proof -
  have e: "u ''C001|ENG|P|L001|PF|S001|Y|A0001||||SRC|PT|D001|'' @ replicate 999 97
                   @ 233 # u ''|0|N||'' @ [10]
     = 67 # (u ''001|ENG|P|L001|PF|S001|Y|A0001||||SRC|PT|D001|'' @ replicate 999 97
              @ [233] @ u ''|0|N|'') @ [124, 10]"
    by (simp add: u_def)
  have s: "strip (u ''C001|ENG|P|L001|PF|S001|Y|A0001||||SRC|PT|D001|'' @ replicate 999 97
                   @ 233 # u ''|0|N||'' @ [10])
     = u ''C001|ENG|P|L001|PF|S001|Y|A0001||||SRC|PT|D001|'' @ replicate 999 97
         @ [233] @ u ''|0|N||''"
    unfolding e by (subst strip_line) (simp_all add: isspace_def u_def)
  have w: "split_on 124 (replicate 999 97 @ 233 # rest)
             = (replicate 999 97 @ hd (split_on 124 (233 # rest)))
                 # tl (split_on 124 (233 # rest))" for rest
    by (rule split_on_word) simp
  show ?thesis
    unfolding split_record_def s by (simp add: u_def w)
qed

text \<open>
  C7: the guard is to truncate a long surface string without cutting a character, and to
  raise only when no safe cut point can be found. For 999 letters \<open>a\<close> followed by
  the character U+00E9 the encoding has 1001 bytes and the first 999 bytes are the encoding of a
  prefix of the string, so a safe cut point exists; the code slices at byte 1000 without
  looking for it, inside the two-byte character, and the decoder raises: the row, and
  with it the whole string pass, ends in UnicodeDecodeError.
\<close>

theorem length_guard_raises_where_safe_cut_exists:
  "utf8_encode (replicate 999 97 @ [233]) = Inr (replicate 999 97 @ [195, 169])
   \<and> length (replicate 999 97 @ [195, 169 :: nat]) = 1001
   \<and> utf8_decode (take 999 (replicate 999 97 @ [195, 169])) = Inr (replicate 999 97)
   \<and> prefix (replicate 999 97) (replicate 999 97 @ [233 :: nat])
   \<and> length_guard (replicate 999 97 @ [233]) = Inl UnicodeDecodeError
   \<and> strings_row isword lower languages strings
        [u ''C001'', u ''ENG'', u ''P'', u ''L001'', u ''PF'', u ''S001'', u ''Y'', u ''A0001'',
         [], [], [], u ''SRC'', u ''PT'', u ''D001'', replicate 999 97 @ [233], u ''0'', u ''N'',
         [], []] = Inl UnicodeDecodeError
   \<and> create_strings isword lower
        \<lparr>MRCONSO = [u ''C001|ENG|P|L001|PF|S001|Y|A0001||||SRC|PT|D001|'' @ replicate 999 97
                      @ [233] @ u ''|0|N||'' @ [10]],
         MRDEF = [], MRREL = [], MRSTY = []\<rparr> languages = Inl UnicodeDecodeError"
  by (simp add: utf8_encode_long_cut utf8_decode_a length_guard_long_cut strings_row_def
      create_strings_def long_row_split)

section \<open>A key that two enrichment passes touch\<close>



end
